theory Spec2Isabelle
  imports Complex_Main
begin

section \<open>Data model (types/index.ts)\<close>

text \<open>
  JavaScript numbers are modelled as rationals: the properties below depend on the
  order of numbers and on exact decimal rendering only, so IEEE rounding, NaN and
  the infinities are left out.  A \<open>Date\<close> is either a time value in milliseconds
  since the epoch or the invalid date.
\<close>

datatype carrier = BlueDart | Delhivery

datatype jsdate = Date int | InvalidDate

record BlueDartRaw =
  SVC :: string
  AWB_NO :: string
  AWB :: string
  PICKUP_DT :: string
  ORIGIN :: string
  DESTINATION :: string
  ACT_WT :: rat
  CHRG_WT :: rat
  PCS :: rat
  AMOUNT :: rat
  PIN_CODE :: string
  PIN_CODE_spaced :: string
  VALUE :: rat

record DelhiveryRaw =
  waybill_num :: string
  raw_pickup_date :: string
  origin_center :: string
  package_type :: string
  raw_product_value :: rat
  raw_status :: string
  charged_weight :: rat
  raw_zone :: string
  total_amount :: rat
  destination_pin :: string
  item_shipped :: rat

datatype raw_row = BlueDartRow BlueDartRaw | DelhiveryRow DelhiveryRaw

record NormalizedShipment =
  originalData :: raw_row
  carrier :: carrier
  awb :: string
  pickup_date :: jsdate
  origin :: string
  destination :: string
  pin :: string
  actual_weight_kg :: rat
  charged_weight_kg :: rat
  line_amount :: rat
  product_value :: rat
  pieces :: int
  service :: string
  zone :: string
  status :: string
  weight_diff_kg :: rat
  weight_diff_percent :: rat
  is_overbilled :: bool
  is_underbilled :: bool
  per_kg_rate :: rat
  value_bucket :: string
  flag_high_uplift :: bool
  flag_roundup_jump :: bool
  flag_value_weight_mismatch :: bool
  flag_charge_outlier :: bool
  flag_missing_actual :: bool
  flag_miscalculated :: bool

section \<open>Outlier detection (calculateOutliers)\<close>

text \<open>
  The source keeps the shipments in one array and the groups in an object whose
  values are arrays of references into it.  The model keeps the array as a list (the
  store) and a group as the list of the positions of its members, in the order they
  were pushed; the object is an association list in insertion order.
\<close>

definition carrier_name :: "carrier \<Rightarrow> string" where
  "carrier_name c = (case c of BlueDart \<Rightarrow> ''BlueDart'' | Delhivery \<Rightarrow> ''Delhivery'')"

definition group_key :: "NormalizedShipment \<Rightarrow> string" where
  "group_key s = carrier_name (carrier s) @ ''_'' @ zone s @ ''_'' @ service s"

fun groups_push :: "string \<Rightarrow> nat \<Rightarrow> (string \<times> nat list) list \<Rightarrow> (string \<times> nat list) list" where
  "groups_push k i [] = [(k, [i])]"
| "groups_push k i ((k', g) # gs) =
     (if k = k' then (k', g @ [i]) # gs else (k', g) # groups_push k i gs)"

definition build_groups :: "NormalizedShipment list \<Rightarrow> (string \<times> nat list) list" where
  "build_groups shipments =
     fold (\<lambda>i groups. groups_push (group_key (shipments ! i)) i groups)
       [0..<length shipments] []"

text \<open>
  \<open>Math.floor(n * 0.05)\<close> and \<open>Math.floor(n * 0.95)\<close> are floors of floating-point
  products.  The double nearest to 0.05 lies above it and the one nearest to 0.95 below it,
  each by less than half a unit in the last place, so the rounded product is the exact
  integer whenever \<open>n\<close> is a multiple of 20 and stays away from an integer by 0.05
  otherwise: the floors are those of the exact products.
\<close>

definition percentile_index :: "nat \<Rightarrow> rat \<Rightarrow> nat" where
  "percentile_index n q = nat \<lfloor>of_nat n * q\<rfloor>"

definition flag_member :: "rat \<Rightarrow> rat \<Rightarrow> NormalizedShipment \<Rightarrow> NormalizedShipment" where
  "flag_member p5 p95 shipment =
     (let s1 = shipment\<lparr>flag_charge_outlier := per_kg_rate shipment < p5 \<or> per_kg_rate shipment > p95\<rparr>
      in s1\<lparr>flag_miscalculated :=
             is_overbilled s1 \<or> flag_roundup_jump s1 \<or> flag_charge_outlier s1\<rparr>)"

definition process_group :: "nat list \<Rightarrow> NormalizedShipment list \<Rightarrow> NormalizedShipment list" where
  "process_group g store =
     (let rates = sort (filter (\<lambda>r. r > 0) (map (\<lambda>i. per_kg_rate (store ! i)) g))
      in if length rates < 5 then store
         else
           let p5 = rates ! percentile_index (length rates) (5 / 100);
               p95 = rates ! percentile_index (length rates) (95 / 100)
           in fold (\<lambda>i st. st[i := flag_member p5 p95 (st ! i)]) g store)"

definition calculateOutliers :: "NormalizedShipment list \<Rightarrow> NormalizedShipment list" where
  "calculateOutliers shipments =
     fold (\<lambda>(k, g) store. process_group g store) (build_groups shipments) shipments"


text \<open>
  What the detector computes for one shipment, stated from its group: the sorted
  strictly positive rates of the shipments that share its key, and the two flags
  recomputed from them when there are at least five.
\<close>

definition qualifying_rates :: "NormalizedShipment list \<Rightarrow> string \<Rightarrow> rat list" where
  "qualifying_rates ss k =
     sort (filter (\<lambda>r. r > 0) (map per_kg_rate (filter (\<lambda>t. group_key t = k) ss)))"

definition flag_in_group :: "rat list \<Rightarrow> NormalizedShipment \<Rightarrow> NormalizedShipment" where
  "flag_in_group rates s =
     (if length rates < 5 then s
      else flag_member (rates ! percentile_index (length rates) (5 / 100))
             (rates ! percentile_index (length rates) (95 / 100)) s)"

definition same_triple :: "NormalizedShipment \<Rightarrow> NormalizedShipment \<Rightarrow> bool" where
  "same_triple s t \<longleftrightarrow> carrier t = carrier s \<and> zone t = zone s \<and> service t = service s"

definition triple_rates :: "NormalizedShipment list \<Rightarrow> NormalizedShipment \<Rightarrow> rat list" where
  "triple_rates ss s =
     sort (filter (\<lambda>r. r > 0) (map per_kg_rate (filter (same_triple s) ss)))"

section \<open>JavaScript strings and objects\<close>

text \<open>
  Strings are lists of 8-bit characters.  \<open>trim\<close> removes the white space of the
  language that fits in one such character; \<open>js_split\<close> is \<open>String.split\<close> with a
  one-character separator and always returns at least one piece.
\<close>

definition js_whitespace :: "char \<Rightarrow> bool" where
  "js_whitespace c \<longleftrightarrow>
     c \<in> set [CHR 0x09, CHR 0x0A, CHR 0x0B, CHR 0x0C, CHR 0x0D, CHR 0x20, CHR 0xA0]"

definition trim :: "string \<Rightarrow> string" where
  "trim s = rev (dropWhile js_whitespace (rev (dropWhile js_whitespace s)))"

definition js_includes :: "string \<Rightarrow> char \<Rightarrow> bool" where
  "js_includes s c \<longleftrightarrow> c \<in> set s"

fun js_split :: "char \<Rightarrow> string \<Rightarrow> string list" where
  "js_split c [] = [[]]"
| "js_split c (x # xs) =
     (if x = c then [] # js_split c xs
      else (case js_split c xs of [] \<Rightarrow> [[x]] | p # ps \<Rightarrow> (x # p) # ps))"

fun js_join :: "string \<Rightarrow> string list \<Rightarrow> string" where
  "js_join sep [] = []"
| "js_join sep [x] = x"
| "js_join sep (x # y # ys) = x @ sep @ js_join sep (y # ys)"

definition padStart :: "nat \<Rightarrow> char \<Rightarrow> string \<Rightarrow> string" where
  "padStart n c s = replicate (n - length s) c @ s"

definition is_digit :: "char \<Rightarrow> bool" where
  "is_digit c \<longleftrightarrow> (48::nat) \<le> of_char c \<and> of_char c \<le> (57::nat)"

definition digit_value :: "char \<Rightarrow> int" where
  "digit_value c = of_char c - 48"

definition number_of_digits :: "string \<Rightarrow> int" where
  "number_of_digits ds = foldl (\<lambda>n c. 10 * n + digit_value c) 0 ds"

text \<open>
  A property read on an object literal is looked up on \<open>Object.prototype\<close> when the
  object has no own property of that name.  The inherited members are functions (and
  \<open>__proto__\<close> an object): all of them are truthy; the text is what they convert to.
\<close>

definition object_prototype_member :: "string \<Rightarrow> string option" where
  "object_prototype_member k =
     (if k = ''__proto__'' then Some ''[object Object]''
      else if k = ''constructor'' then Some ''function Object() { [native code] }''
      else if k \<in> set [''__defineGetter__'', ''__defineSetter__'', ''__lookupGetter__'',
                        ''__lookupSetter__'', ''hasOwnProperty'', ''isPrototypeOf'',
                        ''propertyIsEnumerable'', ''toLocaleString'', ''toString'', ''valueOf'']
      then Some (''function '' @ k @ ''() { [native code] }'')
      else None)"

definition object_get :: "(string \<times> string) list \<Rightarrow> string \<Rightarrow> string option" where
  "object_get table k =
     (case map_of table k of Some v \<Rightarrow> Some v | None \<Rightarrow> object_prototype_member k)"

text \<open>
  \<open>Object.entries\<close> lists the keys that are array indices (canonical decimal numerals
  below \<open>2^32 - 1\<close>, which is 4294967295) first, in ascending numeric order, and then
  the other keys in the order in which they were created.
\<close>

definition is_array_index :: "string \<Rightarrow> bool" where
  "is_array_index k \<longleftrightarrow>
     k \<noteq> [] \<and> list_all is_digit k \<and> (if hd k = CHR ''0'' then length k = 1 else True)
       \<and> number_of_digits k < 4294967295"

definition object_entries :: "(string \<times> 'v) list \<Rightarrow> (string \<times> 'v) list" where
  "object_entries kvs =
     sort_key (\<lambda>kv. number_of_digits (fst kv)) (filter (\<lambda>kv. is_array_index (fst kv)) kvs)
       @ filter (\<lambda>kv. \<not> is_array_index (fst kv)) kvs"

section \<open>Date parsing (parseDate)\<close>

text \<open>
  The environment holds what the source takes from outside the repository: the clock
  read by \<open>new Date()\<close>, what the \<open>Date\<close> constructor makes of a string that is not in
  the date-time string format of the language standard (left to the implementation by
  the standard), the library functions \<open>parseISO\<close> and \<open>format\<close> of date-fns (neither
  raises on a string, respectively on a valid date), and the exponent notation of a
  number of magnitude \<open>10^21\<close> or more.
\<close>

record js_env =
  now :: int
  Date_implementation :: "string \<Rightarrow> jsdate"
  parseISO :: "string \<Rightarrow> jsdate"
  format_yyyy_MM_dd :: "int \<Rightarrow> string"
  exponent_text :: "rat \<Rightarrow> string"

definition matches_iso_date :: "string \<Rightarrow> bool" where
  "matches_iso_date s \<longleftrightarrow>
     length s = 10 \<and> list_all (\<lambda>i. is_digit (s ! i)) [0, 1, 2, 3, 5, 6, 8, 9]
       \<and> s ! 4 = CHR ''-'' \<and> s ! 7 = CHR ''-''"

definition InLeapYear :: "int \<Rightarrow> bool" where
  "InLeapYear y \<longleftrightarrow> (y mod 4 = 0 \<and> y mod 100 \<noteq> 0) \<or> y mod 400 = 0"

definition DaysInMonth :: "int \<Rightarrow> nat \<Rightarrow> int" where
  "DaysInMonth y m =
     (if m = 2 then (if InLeapYear y then 29 else 28)
      else if m \<in> set [4, 6, 9, 11] then 30 else 31)"

definition DayFromYear :: "int \<Rightarrow> int" where
  "DayFromYear y =
     365 * (y - 1970) + (y - 1969) div 4 - (y - 1901) div 100 + (y - 1601) div 400"

definition msPerDay :: int where
  "msPerDay = 86400000"

definition MakeDate :: "int \<Rightarrow> nat \<Rightarrow> int \<Rightarrow> int" where
  "MakeDate y m d =
     (DayFromYear y + sum_list (map (DaysInMonth y) [1..<m]) + d - 1) * msPerDay"

definition date_time_string :: "string \<Rightarrow> int option" where
  "date_time_string s =
     (if length s = 24 \<and> matches_iso_date (take 10 s) \<and> drop 10 s = ''T00:00:00.000Z''
      then
        let y = number_of_digits (take 4 s);
            m = nat (number_of_digits (take 2 (drop 5 s)));
            d = number_of_digits (take 2 (drop 8 s))
        in if 1 \<le> m \<and> m \<le> 12 \<and> 1 \<le> d \<and> d \<le> DaysInMonth y m
           then Some (MakeDate y m d) else None
      else None)"

definition newDate :: "js_env \<Rightarrow> string \<Rightarrow> jsdate" where
  "newDate env s =
     (case date_time_string s of Some t \<Rightarrow> Date t | None \<Rightarrow> Date_implementation env s)"

definition months :: "(string \<times> string) list" where
  "months =
     [(''Jan'', ''01''), (''Feb'', ''02''), (''Mar'', ''03''), (''Apr'', ''04''),
      (''May'', ''05''), (''Jun'', ''06''), (''Jul'', ''07''), (''Aug'', ''08''),
      (''Sep'', ''09''), (''Oct'', ''10''), (''Nov'', ''11''), (''Dec'', ''12'')]"

text \<open>
  Each of the three format branches of \<open>parseDate\<close> either returns from the function
  (\<open>Some\<close>) or falls through to the next one (\<open>None\<close>).  No operation inside the
  \<open>try\<close> block raises on a string, so the \<open>catch\<close> handler is never entered.
\<close>

definition valid_or_fall :: "jsdate \<Rightarrow> jsdate option" where
  "valid_or_fall d = (case d of InvalidDate \<Rightarrow> None | Date t \<Rightarrow> Some (Date t))"

definition iso_branch :: "js_env \<Rightarrow> string \<Rightarrow> jsdate option" where
  "iso_branch env dateStr =
     (if matches_iso_date dateStr
      then valid_or_fall (newDate env (dateStr @ ''T00:00:00.000Z''))
      else None)"

definition delhivery_branch :: "js_env \<Rightarrow> string \<Rightarrow> jsdate option" where
  "delhivery_branch env dateStr =
     (if js_includes dateStr CHR 0x20 \<and> js_includes dateStr CHR ''-''
         \<and> length (js_split CHR ''-'' dateStr) = 3
      then
        let datePart = hd (js_split CHR 0x20 dateStr);
            parts = js_split CHR ''-'' datePart
        in if length parts = 3
           then
             let day = padStart 2 CHR ''0'' (parts ! 0);
                 month = padStart 2 CHR ''0'' (parts ! 1);
                 year = parts ! 2;
                 isoDateStr = year @ ''-'' @ month @ ''-'' @ day
             in valid_or_fall (newDate env (isoDateStr @ ''T00:00:00.000Z''))
           else None
      else None)"

definition bluedart_branch :: "js_env \<Rightarrow> string \<Rightarrow> jsdate option" where
  "bluedart_branch env dateStr =
     (if js_includes dateStr CHR ''-'' \<and> \<not> js_includes dateStr CHR 0x20
      then
        let parts = js_split CHR ''-'' dateStr
        in if length parts = 3
           then
             let day = padStart 2 CHR ''0'' (trim (parts ! 0));
                 monthStr = trim (parts ! 1);
                 year = trim (parts ! 2)
             in (case object_get months monthStr of
                   None \<Rightarrow> None
                 | Some month \<Rightarrow>
                     let fullYear = (if length year = 2 then ''20'' @ year else year);
                         isoDateStr = fullYear @ ''-'' @ month @ ''-'' @ day
                     in valid_or_fall (newDate env (isoDateStr @ ''T00:00:00.000Z'')))
           else None
      else None)"

definition parseDate :: "js_env \<Rightarrow> string \<Rightarrow> jsdate" where
  "parseDate env dateStr =
     (if dateStr = [] \<or> trim dateStr = [] then Date (now env)
      else
        case iso_branch env dateStr of Some d \<Rightarrow> d | None \<Rightarrow>
        (case delhivery_branch env dateStr of Some d \<Rightarrow> d | None \<Rightarrow>
        (case bluedart_branch env dateStr of Some d \<Rightarrow> d | None \<Rightarrow>
        (case parseISO env dateStr of
           InvalidDate \<Rightarrow> Date (now env)
         | Date t \<Rightarrow> Date t))))"

text \<open>
  The shape \<open>DD-MMM-YY\<close>: two digits, a three-letter month token, two digits.
\<close>

definition is_letter :: "char \<Rightarrow> bool" where
  "is_letter c \<longleftrightarrow>
     ((65::nat) \<le> of_char c \<and> of_char c \<le> (90::nat))
       \<or> ((97::nat) \<le> of_char c \<and> of_char c \<le> (122::nat))"

definition is_dd_mmm_yy :: "string \<Rightarrow> bool" where
  "is_dd_mmm_yy s \<longleftrightarrow>
     length s = 9 \<and> list_all (\<lambda>i. is_digit (s ! i)) [0, 1, 7, 8]
       \<and> list_all (\<lambda>i. is_letter (s ! i)) [3, 4, 5]
       \<and> s ! 2 = CHR ''-'' \<and> s ! 6 = CHR ''-''"

definition month_token :: "string \<Rightarrow> string" where
  "month_token s = take 3 (drop 3 s)"


section \<open>Normalisation (normalizeBlueDart, normalizeDelhivery)\<close>

text \<open>
  The raw numeric columns are numbers (the upload step has coerced them).  For a number
  \<open>x\<close>, \<open>parseFloat(String(x || '0')) || d\<close> is \<open>x\<close> itself unless \<open>x\<close> is zero or
  absent, and then \<open>d\<close>; an absent column and a zero are not told apart.  In the same
  way \<open>a || b\<close> on strings is \<open>b\<close> exactly when \<open>a\<close> is empty or absent.  \<open>parseInt\<close>
  of the decimal text of a number cuts the fraction off.
\<close>

definition parseFloat_or :: "rat \<Rightarrow> rat \<Rightarrow> rat" where
  "parseFloat_or x d = (if x = 0 then d else x)"

definition str_or :: "string \<Rightarrow> string \<Rightarrow> string" where
  "str_or a b = (if a = [] then b else a)"

definition truncate :: "rat \<Rightarrow> int" where
  "truncate x = (if x < 0 then - \<lfloor>- x\<rfloor> else \<lfloor>x\<rfloor>)"

definition parseInt_or :: "rat \<Rightarrow> int" where
  "parseInt_or x = (let p = truncate (if x = 0 then 1 else x) in if p = 0 then 1 else p)"

datatype weight_unit = unit_kg | unit_g

definition detectWeightUnit :: "rat list \<Rightarrow> weight_unit" where
  "detectWeightUnit weights =
     (let validWeights = filter (\<lambda>w. w > 0) weights
      in if length validWeights = 0 then unit_kg
         else
           let avg = foldl (\<lambda>sum w. sum + w) 0 validWeights / of_nat (length validWeights)
           in if avg > 50 \<and> avg < 2000 then unit_g else unit_kg)"

definition getValueBucket :: "rat \<Rightarrow> string" where
  "getValueBucket v =
     (if v \<le> 500 then [CHR 0xE2, CHR 0x89, CHR 0xA4] @ ''500''
      else if v \<le> 1000 then ''501-1000''
      else if v \<le> 2000 then ''1001-2000''
      else ''>2000'')"

definition zoneMapping :: "(string \<times> string) list" where
  "zoneMapping =
     [(''MAA'', ''South''), (''BLR'', ''South''), (''TJV'', ''South''), (''NAM'', ''South''),
      (''CJB'', ''South''), (''DEL'', ''North''), (''MUM'', ''West''), (''KOL'', ''East'')]"

definition deriveZoneFromDestination :: "string \<Rightarrow> string" where
  "deriveZoneFromDestination dest =
     (let prefix = hd (js_split CHR ''-'' dest)
      in case object_get zoneMapping prefix of Some z \<Rightarrow> z | None \<Rightarrow> ''Unknown'')"

definition normalizeBlueDartRow :: "js_env \<Rightarrow> BlueDartRaw \<Rightarrow> NormalizedShipment" where
  "normalizeBlueDartRow env row =
     (let actualWeight = parseFloat_or (ACT_WT row) 0;
          chargedWeight = parseFloat_or (CHRG_WT row) (if actualWeight > 0 then actualWeight else 1 / 2);
          awbNumber = str_or (AWB_NO row) (str_or (AWB row) []);
          pickupDate = str_or (PICKUP_DT row) [];
          lineAmount = parseFloat_or (AMOUNT row) 0;
          productValue = parseFloat_or (VALUE row) 0;
          pieces = parseInt_or (PCS row);
          origin = str_or (ORIGIN row) [];
          destination = str_or (DESTINATION row) [];
          pinCode = str_or (PIN_CODE_spaced row) (str_or (PIN_CODE row) []);
          service = str_or (SVC row) ''Standard'';
          weightDiff = chargedWeight - actualWeight;
          weightDiffPercent = (if actualWeight > 0 then (weightDiff / actualWeight) * 100 else 0);
          perKgRate = (if chargedWeight > 0 then lineAmount / chargedWeight else 0)
      in \<lparr> originalData = BlueDartRow row,
           carrier = BlueDart,
           awb = awbNumber,
           pickup_date = parseDate env pickupDate,
           origin = origin,
           destination = destination,
           pin = pinCode,
           actual_weight_kg = actualWeight,
           charged_weight_kg = chargedWeight,
           line_amount = lineAmount,
           product_value = productValue,
           pieces = pieces,
           service = service,
           zone = deriveZoneFromDestination destination,
           status = ''Delivered'',
           weight_diff_kg = weightDiff,
           weight_diff_percent = weightDiffPercent,
           is_overbilled = (weightDiff > 1 / 10),
           is_underbilled = (weightDiff < - (1 / 10)),
           per_kg_rate = perKgRate,
           value_bucket = getValueBucket productValue,
           flag_high_uplift = (chargedWeight \<ge> actualWeight + 1 / 2),
           flag_roundup_jump = (actualWeight < 1 \<and> chargedWeight \<ge> 3 / 2),
           flag_value_weight_mismatch = (productValue \<ge> 1000 \<and> actualWeight < 1 / 2),
           flag_charge_outlier = False,
           flag_missing_actual = (actualWeight = 0 \<or> actualWeight = 0),
           flag_miscalculated = False \<rparr>)"

definition normalizeBlueDart :: "js_env \<Rightarrow> BlueDartRaw list \<Rightarrow> NormalizedShipment list" where
  "normalizeBlueDart env data =
     (if length data = 0 then [] else map (normalizeBlueDartRow env) data)"

definition normalizeDelhiveryRow :: "js_env \<Rightarrow> bool \<Rightarrow> DelhiveryRaw \<Rightarrow> NormalizedShipment" where
  "normalizeDelhiveryRow env isChargedInGrams row =
     (let productValue = parseFloat_or (raw_product_value row) 0;
          actualWeight = (if productValue > 0 then (productValue * 450 / 360) / 1000 else 0);
          chargedWeight = (if isChargedInGrams then parseFloat_or (charged_weight row) 0 / 1000
                           else parseFloat_or (charged_weight row) 0);
          lineAmount = parseFloat_or (total_amount row) 0;
          pieces = parseInt_or (item_shipped row);
          weightDiff = chargedWeight - actualWeight;
          weightDiffPercent = (if actualWeight > 0 then (weightDiff / actualWeight) * 100 else 0);
          perKgRate = (if chargedWeight > 0 then lineAmount / chargedWeight else 0)
      in \<lparr> originalData = DelhiveryRow row,
           carrier = Delhivery,
           awb = waybill_num row,
           pickup_date = parseDate env (raw_pickup_date row),
           origin = origin_center row,
           destination = destination_pin row,
           pin = destination_pin row,
           actual_weight_kg = actualWeight,
           charged_weight_kg = chargedWeight,
           line_amount = lineAmount,
           product_value = productValue,
           pieces = pieces,
           service = package_type row,
           zone = str_or (raw_zone row) ''Unknown'',
           status = raw_status row,
           weight_diff_kg = weightDiff,
           weight_diff_percent = weightDiffPercent,
           is_overbilled = (weightDiff > 1 / 10),
           is_underbilled = (weightDiff < - (1 / 10)),
           per_kg_rate = perKgRate,
           value_bucket = getValueBucket productValue,
           flag_high_uplift = (chargedWeight \<ge> actualWeight + 1 / 2),
           flag_roundup_jump = (actualWeight < 1 \<and> chargedWeight \<ge> 3 / 2),
           flag_value_weight_mismatch = (productValue \<ge> 1000 \<and> actualWeight < 1 / 2),
           flag_charge_outlier = False,
           flag_missing_actual = (actualWeight = 0 \<or> actualWeight = 0),
           flag_miscalculated = False \<rparr>)"

definition normalizeDelhivery :: "js_env \<Rightarrow> DelhiveryRaw list \<Rightarrow> NormalizedShipment list" where
  "normalizeDelhivery env data =
     (if length data = 0 then []
      else
        let chargedWeights = filter (\<lambda>w. w > 0) (map (\<lambda>row. parseFloat_or (charged_weight row) 0) data);
            isChargedInGrams = (detectWeightUnit chargedWeights = unit_g)
        in map (normalizeDelhiveryRow env isChargedInGrams) data)"

section \<open>Key figures (calculateKPIs, the part that ranks PIN codes)\<close>

text \<open>
  \<open>pinGroups\<close> is an object used as a dictionary, built by a \<open>reduce\<close> over the
  overbilled shipments.  A PIN that names a member of \<open>Object.prototype\<close> finds that
  member instead of an entry of its own, so no entry is created for it.
\<close>

record ProblematicPin =
  pin' :: string
  count' :: int
  totalValue :: rat

fun pinGroups_add :: "string \<Rightarrow> rat \<Rightarrow> (string \<times> int \<times> rat) list \<Rightarrow> (string \<times> int \<times> rat) list" where
  "pinGroups_add p a [] = [(p, 0 + 1, 0 + a)]"
| "pinGroups_add p a ((q, c, t) # acc) =
     (if p = q then (q, c + 1, t + a) # acc else (q, c, t) # pinGroups_add p a acc)"

definition pinGroups_step :: "(string \<times> int \<times> rat) list \<Rightarrow> NormalizedShipment \<Rightarrow> (string \<times> int \<times> rat) list" where
  "pinGroups_step acc s =
     (if object_prototype_member (pin s) \<noteq> None then acc
      else pinGroups_add (pin s) (line_amount s) acc)"

definition topProblematicPins :: "NormalizedShipment list \<Rightarrow> ProblematicPin list" where
  "topProblematicPins shipments =
     (if length shipments = 0 then []
      else
        let overbilled = filter is_overbilled shipments;
            pinGroups = foldl pinGroups_step [] overbilled
        in take 10
             (sort_key (\<lambda>e. - count' e)
                (map (\<lambda>(p, c, t). \<lparr> pin' = p, count' = c, totalValue = t \<rparr>)
                   (object_entries pinGroups))))"

text \<open>
  The ranking stated from the input: one entry for each PIN of an overbilled shipment,
  with the number of those shipments and the sum of their amounts.
\<close>

definition pin_count :: "NormalizedShipment list \<Rightarrow> string \<Rightarrow> int" where
  "pin_count xs p = int (length (filter (\<lambda>s. pin s = p) xs))"

definition pin_total :: "NormalizedShipment list \<Rightarrow> string \<Rightarrow> rat" where
  "pin_total xs p = sum_list (map line_amount (filter (\<lambda>s. pin s = p) xs))"

definition pin_entry :: "NormalizedShipment list \<Rightarrow> string \<Rightarrow> ProblematicPin" where
  "pin_entry overbilled p =
     \<lparr> pin' = p, count' = pin_count overbilled p, totalValue = pin_total overbilled p \<rparr>"

definition encountered_pins :: "NormalizedShipment list \<Rightarrow> string list" where
  "encountered_pins overbilled =
     rev (remdups (rev (filter (\<lambda>p. object_prototype_member p = None) (map pin overbilled))))"

definition entries_order :: "string list \<Rightarrow> string list" where
  "entries_order ks =
     sort_key number_of_digits (filter is_array_index ks) @ filter (\<lambda>k. \<not> is_array_index k) ks"

section \<open>CSV export (exportToCSV, the text it builds)\<close>

text \<open>
  \<open>toFixed\<close> rounds the magnitude to the nearest multiple of \<open>10^-f\<close>, the larger one
  on a tie, and prints it with exactly \<open>f\<close> decimals.  \<open>format\<close> raises a
  \<open>RangeError\<close> on an invalid date.
\<close>

datatype js_error = RangeError

definition digit_char :: "nat \<Rightarrow> char" where
  "digit_char d = ''0123456789'' ! d"

function show_decimal :: "int \<Rightarrow> string" where
  "show_decimal n =
     (if n < 10 then [digit_char (nat n)]
      else show_decimal (n div 10) @ [digit_char (nat (n mod 10))])"
  by pat_completeness auto
termination
  by (relation "measure nat") auto

declare show_decimal.simps [simp del]

definition show_int :: "int \<Rightarrow> string" where
  "show_int i = (if i < 0 then ''-'' @ show_decimal (- i) else show_decimal i)"

definition toFixed :: "js_env \<Rightarrow> nat \<Rightarrow> rat \<Rightarrow> string" where
  "toFixed env f x =
     (if \<bar>x\<bar> \<ge> 10 ^ 21 then exponent_text env x
      else
        let n = \<lfloor>\<bar>x\<bar> * 10 ^ f + 1 / 2\<rfloor>;
            m = show_decimal n;
            m = replicate (f + 1 - length m) CHR ''0'' @ m;
            k = length m
        in (if x < 0 then ''-'' else [])
             @ (if f = 0 then m else take (k - f) m @ ''.'' @ drop (k - f) m))"

definition format_date :: "js_env \<Rightarrow> jsdate \<Rightarrow> js_error + string" where
  "format_date env d =
     (case d of InvalidDate \<Rightarrow> Inl RangeError | Date t \<Rightarrow> Inr (format_yyyy_MM_dd env t))"

definition quoted :: "string \<Rightarrow> string" where
  "quoted s = [CHR 0x22] @ s @ [CHR 0x22]"

definition yes_no :: "bool \<Rightarrow> string" where
  "yes_no b = (if b then ''Y'' else ''N'')"

definition headers :: "string list" where
  "headers =
     [''Pickup Date'', ''Carrier'', ''AWB'', ''Origin'', ''Destination'', ''PIN'', ''Pieces'',
      ''Actual Weight (kg)'', ''Charged Weight (kg)'', ''Weight Diff (kg)'', ''Weight Diff (%)'',
      ''Line Amount'', ''Per Kg Rate'', ''Product Value'', ''Service'', ''Zone'', ''Status'',
      ''High Uplift'', ''Roundup Jump'', ''Value-Weight Mismatch'', ''Charge Outlier'',
      ''Missing Actual'']"

definition csv_fields :: "js_env \<Rightarrow> NormalizedShipment \<Rightarrow> js_error + string list" where
  "csv_fields env s =
     (case format_date env (pickup_date s) of
        Inl e \<Rightarrow> Inl e
      | Inr date \<Rightarrow>
          Inr [date,
               carrier_name (carrier s),
               awb s,
               quoted (origin s),
               quoted (destination s),
               pin s,
               show_int (pieces s),
               toFixed env 3 (actual_weight_kg s),
               toFixed env 3 (charged_weight_kg s),
               toFixed env 3 (weight_diff_kg s),
               toFixed env 2 (weight_diff_percent s),
               toFixed env 2 (line_amount s),
               toFixed env 2 (per_kg_rate s),
               toFixed env 2 (product_value s),
               quoted (service s),
               zone s,
               quoted (status s),
               yes_no (flag_high_uplift s),
               yes_no (flag_roundup_jump s),
               yes_no (flag_value_weight_mismatch s),
               yes_no (flag_charge_outlier s),
               yes_no (flag_missing_actual s)])"

fun map_result :: "('a \<Rightarrow> 'e + 'b) \<Rightarrow> 'a list \<Rightarrow> 'e + 'b list" where
  "map_result f [] = Inr []"
| "map_result f (x # xs) =
     (case f x of
        Inl e \<Rightarrow> Inl e
      | Inr y \<Rightarrow> (case map_result f xs of Inl e \<Rightarrow> Inl e | Inr ys \<Rightarrow> Inr (y # ys)))"

definition csv_rows :: "js_env \<Rightarrow> NormalizedShipment list \<Rightarrow> js_error + string list list" where
  "csv_rows env shipments = map_result (csv_fields env) shipments"

definition csvContent :: "js_env \<Rightarrow> NormalizedShipment list \<Rightarrow> js_error + string" where
  "csvContent env shipments =
     (case csv_rows env shipments of
        Inl e \<Rightarrow> Inl e
      | Inr rows \<Rightarrow>
          Inr (js_join [CHR 0x0A] (js_join '','' headers # map (js_join '','') rows)))"


text \<open>
  The layout of a row, column by column: the date, eight columns of text and numbers
  up to the weights and amounts, three columns of text, and the five flags.
\<close>

definition csv_layout :: "js_env \<Rightarrow> NormalizedShipment \<Rightarrow> string list \<Rightarrow> bool" where
  "csv_layout env s r \<longleftrightarrow>
     length r = 22
     \<and> format_date env (pickup_date s) = Inr (r ! 0)
     \<and> r ! 1 = carrier_name (carrier s)
     \<and> r ! 2 = awb s
     \<and> r ! 3 = quoted (origin s)
     \<and> r ! 4 = quoted (destination s)
     \<and> r ! 5 = pin s
     \<and> r ! 6 = show_int (pieces s)
     \<and> r ! 7 = toFixed env 3 (actual_weight_kg s)
     \<and> r ! 8 = toFixed env 3 (charged_weight_kg s)
     \<and> r ! 9 = toFixed env 3 (weight_diff_kg s)
     \<and> r ! 10 = toFixed env 2 (weight_diff_percent s)
     \<and> r ! 11 = toFixed env 2 (line_amount s)
     \<and> r ! 12 = toFixed env 2 (per_kg_rate s)
     \<and> r ! 13 = toFixed env 2 (product_value s)
     \<and> r ! 14 = quoted (service s)
     \<and> r ! 15 = zone s
     \<and> r ! 16 = quoted (status s)
     \<and> r ! 17 = yes_no (flag_high_uplift s)
     \<and> r ! 18 = yes_no (flag_roundup_jump s)
     \<and> r ! 19 = yes_no (flag_value_weight_mismatch s)
     \<and> r ! 20 = yes_no (flag_charge_outlier s)
     \<and> r ! 21 = yes_no (flag_missing_actual s)"

text \<open>
  What a row shows of a shipment: the formatted date, the carrier, the seven texts,
  the piece count, the seven numbers as they are printed, and the five flags.
\<close>

definition exported_columns ::
  "js_env \<Rightarrow> NormalizedShipment \<Rightarrow>
     (js_error + string) \<times> carrier \<times> string list \<times> int \<times> string list \<times> bool list" where
  "exported_columns env s =
     (format_date env (pickup_date s),
      carrier s,
      [awb s, origin s, destination s, pin s, service s, zone s, status s],
      pieces s,
      [toFixed env 3 (actual_weight_kg s), toFixed env 3 (charged_weight_kg s),
       toFixed env 3 (weight_diff_kg s), toFixed env 2 (weight_diff_percent s),
       toFixed env 2 (line_amount s), toFixed env 2 (per_kg_rate s),
       toFixed env 2 (product_value s)],
      [flag_high_uplift s, flag_roundup_jump s, flag_value_weight_mismatch s,
       flag_charge_outlier s, flag_missing_actual s])"

text \<open>
  Two numbers that print alike with \<open>f\<close> decimals differ by less than \<open>10^-f\<close>
  (numbers of magnitude \<open>10^21\<close> or more are printed in exponent notation, about
  which nothing is assumed).
\<close>

definition agree_to :: "nat \<Rightarrow> rat \<Rightarrow> rat \<Rightarrow> bool" where
  "agree_to f x y \<longleftrightarrow> (if \<bar>x\<bar> < 10 ^ 21 \<and> \<bar>y\<bar> < 10 ^ 21 then \<bar>x - y\<bar> < 1 / 10 ^ f else True)"

text \<open>
  The export writes its columns as they are and joins them with commas and line feeds.
  A text is plain when it contains neither; a shipment is exportable when its pickup
  date is valid and is formatted to a plain text, its seven texts are plain, and none
  of its seven numbers is printed in an exponent notation that is not plain.
\<close>

definition plain_text :: "string \<Rightarrow> bool" where
  "plain_text f \<longleftrightarrow> CHR '','' \<notin> set f \<and> CHR 0x0A \<notin> set f"

definition plain_number :: "js_env \<Rightarrow> rat \<Rightarrow> bool" where
  "plain_number env x \<longleftrightarrow> (if \<bar>x\<bar> < 10 ^ 21 then True else plain_text (exponent_text env x))"

definition exportable :: "js_env \<Rightarrow> NormalizedShipment \<Rightarrow> bool" where
  "exportable env s \<longleftrightarrow>
     (case pickup_date s of
        InvalidDate \<Rightarrow> False
      | Date t \<Rightarrow> plain_text (format_yyyy_MM_dd env t))
     \<and> list_all plain_text
          [awb s, origin s, destination s, pin s, service s, zone s, status s]
     \<and> list_all (plain_number env)
          [actual_weight_kg s, charged_weight_kg s, weight_diff_kg s, weight_diff_percent s,
           line_amount s, per_kg_rate s, product_value s]"

section \<open>Example inputs\<close>

definition example_env :: js_env where
  "example_env =
     \<lparr> now = 1762128000000,
       Date_implementation = (\<lambda>s. InvalidDate),
       parseISO = (\<lambda>s. InvalidDate),
       format_yyyy_MM_dd = (\<lambda>t. ''2025-07-07''),
       exponent_text = (\<lambda>x. ''1e+21'') \<rparr>"

definition bluedart_row :: "string \<Rightarrow> rat \<Rightarrow> rat \<Rightarrow> rat \<Rightarrow> BlueDartRaw" where
  "bluedart_row p act chrg amt =
     \<lparr> SVC = ''PPM'', AWB_NO = ''90128761682'', AWB = [], PICKUP_DT = ''07-Jul-25'',
       ORIGIN = ''CJB-COIMBATORE'', DESTINATION = ''MAA-CHENNAI'', ACT_WT = act,
       CHRG_WT = chrg, PCS = 1, AMOUNT = amt, PIN_CODE = p, PIN_CODE_spaced = [],
       VALUE = 720 \<rparr>"

definition delhivery_row :: "string \<Rightarrow> string \<Rightarrow> rat \<Rightarrow> DelhiveryRaw" where
  "delhivery_row z p amt =
     \<lparr> waybill_num = ''40127410025852'', raw_pickup_date = ''28-07-2025 07:48'',
       origin_center = ''Coimbatore'', package_type = p, raw_product_value = 0,
       raw_status = ''Delivered'', charged_weight = 1, raw_zone = z, total_amount = amt,
       destination_pin = ''624601'', item_shipped = 1 \<rparr>"

text \<open>
  Six rows of one carrier whose zone and service differ (\<open>A_B\<close> with \<open>C\<close>, \<open>A\<close> with
  \<open>B_C\<close>) and whose keys are the same text.
\<close>

definition colliding_rows :: "DelhiveryRaw list" where
  "colliding_rows =
     [delhivery_row ''A_B'' ''C'' 10, delhivery_row ''A_B'' ''C'' 20,
      delhivery_row ''A_B'' ''C'' 30, delhivery_row ''A'' ''B_C'' 40,
      delhivery_row ''A'' ''B_C'' 50, delhivery_row ''A'' ''B_C'' 0]"

text \<open>One zone and service, five positive rates and one shipment billed nothing.\<close>

definition one_group_rows :: "DelhiveryRaw list" where
  "one_group_rows =
     [delhivery_row ''B'' ''Pre-paid'' 10, delhivery_row ''B'' ''Pre-paid'' 20,
      delhivery_row ''B'' ''Pre-paid'' 30, delhivery_row ''B'' ''Pre-paid'' 40,
      delhivery_row ''B'' ''Pre-paid'' 50, delhivery_row ''B'' ''Pre-paid'' 0]"

text \<open>Overbilled shipments: two numeric PINs, and three lettered PINs.\<close>

definition numeric_pin_rows :: "BlueDartRaw list" where
  "numeric_pin_rows = [bluedart_row ''600002'' 1 2 100, bluedart_row ''600001'' 1 2 100]"

definition lettered_pin_rows :: "BlueDartRaw list" where
  "lettered_pin_rows =
     [bluedart_row ''PIN-B'' 1 2 100, bluedart_row ''PIN-A'' 1 2 100,
      bluedart_row ''PIN-B'' 1 2 50]"

text \<open>Two rows that differ in the charged weight by a tenth of a gram.\<close>

definition fine_row_a :: BlueDartRaw where
  "fine_row_a = bluedart_row ''600045'' 0 (20001 / 10000) 100"

definition fine_row_b :: BlueDartRaw where
  "fine_row_b = bluedart_row ''600045'' 0 (20002 / 10000) 100"

section \<open>Verification: outlier detection\<close>

subsection \<open>The groups that are built\<close>

lemma map_of_groups_push:
  "map_of (groups_push k i gs) =
     (map_of gs)(k \<mapsto> (case map_of gs k of None \<Rightarrow> [i] | Some g \<Rightarrow> g @ [i]))"
  by (induction gs) (auto simp: fun_eq_iff)

lemma keys_groups_push:
  "map fst (groups_push k i gs) =
     (if k \<in> set (map fst gs) then map fst gs else map fst gs @ [k])"
  by (induction gs) (force simp: image_iff)+

lemma distinct_groups_push:
  "distinct (map fst gs) \<Longrightarrow> distinct (map fst (groups_push k i gs))"
  by (simp add: keys_groups_push)

lemma distinct_fold_push:
  "distinct (map fst gs) \<Longrightarrow> distinct (map fst (fold (\<lambda>i. groups_push (key i) i) js gs))"
  by (induction js arbitrary: gs) (auto simp: distinct_groups_push)

lemma map_of_fold_push:
  "map_of (fold (\<lambda>i. groups_push (key i) i) js gs) k =
     (case map_of gs k of
        None \<Rightarrow> (if filter (\<lambda>j. key j = k) js = [] then None
                 else Some (filter (\<lambda>j. key j = k) js))
      | Some g \<Rightarrow> Some (g @ filter (\<lambda>j. key j = k) js))"
  by (induction js arbitrary: gs) (auto simp: map_of_groups_push split: option.splits)

lemma build_groups_distinct: "distinct (map fst (build_groups ss))"
  unfolding build_groups_def by (rule distinct_fold_push) simp

lemma build_groups_member:
  assumes "(k, g) \<in> set (build_groups ss)"
  shows "g = filter (\<lambda>j. group_key (ss ! j) = k) [0..<length ss]"
proof -
  from assms have "map_of (build_groups ss) k = Some g"
    using build_groups_distinct by simp
  then show ?thesis
    unfolding build_groups_def by (simp add: map_of_fold_push split: if_splits)
qed

lemma build_groups_covers:
  assumes "i < length ss"
  shows "\<exists>g. (group_key (ss ! i), g) \<in> set (build_groups ss)"
proof -
  have "i \<in> set (filter (\<lambda>j. group_key (ss ! j) = group_key (ss ! i)) [0..<length ss])"
    using assms by simp
  then have "filter (\<lambda>j. group_key (ss ! j) = group_key (ss ! i)) [0..<length ss] \<noteq> []"
    by force
  then have "map_of (build_groups ss) (group_key (ss ! i)) \<noteq> None"
    unfolding build_groups_def by (simp add: map_of_fold_push)
  then show ?thesis by (auto dest: map_of_SomeD)
qed

subsection \<open>Updating the members of one group in the store\<close>

lemma fold_update_length:
  "length (fold (\<lambda>i st. st[i := f (st ! i)]) g st) = length st"
  by (induction g arbitrary: st) auto

lemma fold_update_nth:
  "distinct g \<Longrightarrow> j < length st \<Longrightarrow>
   fold (\<lambda>i st. st[i := f (st ! i)]) g st ! j =
     (if j \<in> set g then f (st ! j) else st ! j)"
proof (induction g arbitrary: st)
  case Nil
  then show ?case by simp
next
  case (Cons a g)
  have len: "j < length (st[a := f (st ! a)])" using Cons.prems by simp
  have step: "fold (\<lambda>i st. st[i := f (st ! i)]) g (st[a := f (st ! a)]) ! j =
      (if j \<in> set g then f (st[a := f (st ! a)] ! j) else st[a := f (st ! a)] ! j)"
    using Cons.IH [OF _ len] Cons.prems by simp
  show ?case
  proof (cases "j = a")
    case True
    then have "j \<notin> set g" using Cons.prems by simp
    with step True Cons.prems show ?thesis by simp
  next
    case False
    with step show ?thesis by simp
  qed
qed

lemma per_kg_rate_flag_member [simp]: "per_kg_rate (flag_member a b s) = per_kg_rate s"
  by (simp add: flag_member_def Let_def)

lemma per_kg_rate_flag_in_group [simp]: "per_kg_rate (flag_in_group r s) = per_kg_rate s"
  by (simp add: flag_in_group_def)

lemma group_key_flag_in_group [simp]: "group_key (flag_in_group r s) = group_key s"
  by (simp add: flag_in_group_def flag_member_def group_key_def Let_def)

lemma group_rates:
  assumes len: "length st = length ss"
    and rates: "\<forall>i<length ss. per_kg_rate (st ! i) = per_kg_rate (ss ! i)"
  shows "map (\<lambda>i. per_kg_rate (st ! i)) (filter (\<lambda>j. group_key (ss ! j) = k) [0..<length ss])
         = map per_kg_rate (filter (\<lambda>t. group_key t = k) ss)"
proof -
  have "map (\<lambda>i. per_kg_rate (st ! i)) (filter (\<lambda>j. group_key (ss ! j) = k) [0..<length ss])
      = map (\<lambda>i. per_kg_rate (ss ! i)) (filter (\<lambda>j. group_key (ss ! j) = k) [0..<length ss])"
    using rates by (intro map_cong) auto
  also have "\<dots> = map per_kg_rate (map ((!) ss) (filter ((\<lambda>t. group_key t = k) \<circ> (!) ss) [0..<length ss]))"
    by (simp add: comp_def)
  also have "\<dots> = map per_kg_rate (filter (\<lambda>t. group_key t = k) (map ((!) ss) [0..<length ss]))"
    by (simp only: filter_map)
  finally show ?thesis by (simp add: map_nth)
qed

lemma process_group_length [simp]: "length (process_group g st) = length st"
  by (simp add: process_group_def Let_def fold_update_length)

lemma process_group_nth:
  assumes len: "length st = length ss"
    and rates: "\<forall>i<length ss. per_kg_rate (st ! i) = per_kg_rate (ss ! i)"
    and g: "g = filter (\<lambda>j. group_key (ss ! j) = k) [0..<length ss]"
    and j: "j < length ss"
  shows "process_group g st ! j =
           (if group_key (ss ! j) = k then flag_in_group (qualifying_rates ss k) (st ! j)
            else st ! j)"
proof -
  have r: "sort (filter (\<lambda>r. r > 0) (map (\<lambda>i. per_kg_rate (st ! i)) g)) = qualifying_rates ss k"
    unfolding g qualifying_rates_def using group_rates [OF len rates] by simp
  have d: "distinct g" unfolding g by simp
  have m: "j \<in> set g \<longleftrightarrow> group_key (ss ! j) = k" unfolding g using j by simp
  show ?thesis
  proof (cases "length (qualifying_rates ss k) < 5")
    case True
    then show ?thesis by (simp add: process_group_def r flag_in_group_def)
  next
    case False
    then show ?thesis
      using j len by (simp add: process_group_def r flag_in_group_def Let_def fold_update_nth [OF d] m)
  qed
qed

subsection \<open>All groups: the detector, shipment by shipment\<close>

lemma fold_groups_length [simp]:
  "length (fold (\<lambda>(k, g) store. process_group g store) gs st) = length st"
  by (induction gs arbitrary: st) auto

lemma fold_groups_nth:
  assumes "distinct (map fst gs)"
    and "\<forall>(k, g)\<in>set gs. g = filter (\<lambda>j. group_key (ss ! j) = k) [0..<length ss]"
    and "length st = length ss"
    and "\<forall>i<length ss. per_kg_rate (st ! i) = per_kg_rate (ss ! i)"
    and "j < length ss"
  shows "fold (\<lambda>(k, g) store. process_group g store) gs st ! j =
           (if group_key (ss ! j) \<in> fst ` set gs
            then flag_in_group (qualifying_rates ss (group_key (ss ! j))) (st ! j)
            else st ! j)"
  using assms
proof (induction gs arbitrary: st)
  case Nil
  then show ?case by simp
next
  case (Cons kg gs)
  obtain k g where kg: "kg = (k, g)" by (cases kg)
  let ?st = "process_group g st"
  have g: "g = filter (\<lambda>j. group_key (ss ! j) = k) [0..<length ss]"
    using Cons.prems(2) kg by simp
  have nth: "\<And>i. i < length ss \<Longrightarrow> ?st ! i =
      (if group_key (ss ! i) = k then flag_in_group (qualifying_rates ss k) (st ! i) else st ! i)"
    using process_group_nth [OF Cons.prems(3) Cons.prems(4) g] by simp
  have rates': "\<forall>i<length ss. per_kg_rate (?st ! i) = per_kg_rate (ss ! i)"
    using nth Cons.prems(4) by simp
  have IH: "fold (\<lambda>(k, g) store. process_group g store) gs ?st ! j =
           (if group_key (ss ! j) \<in> fst ` set gs
            then flag_in_group (qualifying_rates ss (group_key (ss ! j))) (?st ! j)
            else ?st ! j)"
    using Cons.IH [of ?st] Cons.prems rates' by simp
  have notin: "k \<notin> fst ` set gs" using Cons.prems(1) kg by simp
  show ?case
  proof (cases "group_key (ss ! j) = k")
    case True
    with IH notin nth [OF Cons.prems(5)] show ?thesis by (simp add: kg)
  next
    case False
    with IH nth [OF Cons.prems(5)] show ?thesis by (simp add: kg)
  qed
qed

lemma calculateOutliers_length [simp]: "length (calculateOutliers ss) = length ss"
  by (simp add: calculateOutliers_def)

lemma calculateOutliers_nth:
  assumes "j < length ss"
  shows "calculateOutliers ss ! j = flag_in_group (qualifying_rates ss (group_key (ss ! j))) (ss ! j)"
proof -
  have m: "\<forall>(k, g)\<in>set (build_groups ss). g = filter (\<lambda>j. group_key (ss ! j) = k) [0..<length ss]"
    using build_groups_member by auto
  have c: "group_key (ss ! j) \<in> fst ` set (build_groups ss)"
    using build_groups_covers [OF assms] by force
  show ?thesis
    unfolding calculateOutliers_def
    using fold_groups_nth [OF build_groups_distinct m _ _ assms, of ss] c by simp
qed

lemma calculateOutliers_map:
  "calculateOutliers ss = map (\<lambda>s. flag_in_group (qualifying_rates ss (group_key s)) s) ss"
  by (rule nth_equalityI) (simp_all add: calculateOutliers_nth)


lemma charge_outlier_by_key:
  assumes "j < length ss"
  shows "flag_charge_outlier (calculateOutliers ss ! j) =
           (let rates = qualifying_rates ss (group_key (ss ! j)); n = length rates
            in if n < 5 then flag_charge_outlier (ss ! j)
               else per_kg_rate (ss ! j) < rates ! percentile_index n (5 / 100)
                  \<or> per_kg_rate (ss ! j) > rates ! percentile_index n (95 / 100))"
  using assms by (simp add: calculateOutliers_nth flag_in_group_def flag_member_def Let_def)

lemma small_group_unchanged:
  assumes "j < length ss" and "length (qualifying_rates ss (group_key (ss ! j))) < 5"
  shows "calculateOutliers ss ! j = ss ! j"
  using assms by (simp add: calculateOutliers_nth flag_in_group_def)

lemma qualifying_rates_calculateOutliers:
  "qualifying_rates (calculateOutliers ss) k = qualifying_rates ss k"
proof -
  let ?h = "\<lambda>s. flag_in_group (qualifying_rates ss (group_key s)) s"
  have "map per_kg_rate (filter (\<lambda>t. group_key t = k) (map ?h ss))
      = map per_kg_rate (filter (\<lambda>t. group_key t = k) ss)"
    by (simp add: filter_map comp_def)
  then show ?thesis
    by (simp add: qualifying_rates_def calculateOutliers_map)
qed

lemma flag_member_idem: "flag_member a b (flag_member a b s) = flag_member a b s"
  by (simp add: flag_member_def Let_def)

lemma flag_in_group_idem: "flag_in_group r (flag_in_group r s) = flag_in_group r s"
  by (simp add: flag_in_group_def flag_member_idem)

lemma percentile_index_less:
  assumes "0 < n" "0 \<le> q" "q < 1"
  shows "percentile_index n q < n"
proof -
  have "of_nat n * q < (of_nat n :: rat)" using assms by simp
  then have "\<lfloor>of_nat n * q\<rfloor> < int n"
    by (simp add: floor_less_iff)
  moreover have "0 \<le> \<lfloor>of_nat n * q\<rfloor>" using assms by simp
  ultimately show ?thesis unfolding percentile_index_def by (simp only: nat_less_iff)
qed

lemma percentile_index_div:
  "percentile_index n (5 / 100) = n div 20"
  "percentile_index n (95 / 100) = (19 * n) div 20"
proof -
  have "rat_of_nat n * (5 / 100) = rat_of_nat n / rat_of_nat 20" by simp
  then show "percentile_index n (5 / 100) = n div 20"
    unfolding percentile_index_def by (simp only: floor_divide_of_nat_eq nat_int)
  have "rat_of_nat n * (95 / 100) = rat_of_nat (19 * n) / rat_of_nat 20" by simp
  then show "percentile_index n (95 / 100) = (19 * n) div 20"
    unfolding percentile_index_def by (simp only: floor_divide_of_nat_eq nat_int)
qed

lemma same_triple_group_key: "same_triple s t \<Longrightarrow> group_key t = group_key s"
  by (simp add: same_triple_def group_key_def)

lemma length_filter_mono:
  "(\<And>x. P x \<Longrightarrow> Q x) \<Longrightarrow> length (filter P xs) \<le> length (filter Q xs)"
  by (induction xs) auto

lemma triple_rates_le:
  "length (triple_rates ss s) \<le> length (qualifying_rates ss (group_key s))"
proof -
  have "length (triple_rates ss s) = length (filter (\<lambda>t. same_triple s t \<and> per_kg_rate t > 0) ss)"
    by (simp add: triple_rates_def filter_map comp_def conj_commute)
  also have "\<dots> \<le> length (filter (\<lambda>t. group_key t = group_key s \<and> per_kg_rate t > 0) ss)"
    by (rule length_filter_mono) (auto dest: same_triple_group_key)
  also have "\<dots> = length (qualifying_rates ss (group_key s))"
    by (simp add: qualifying_rates_def filter_map comp_def conj_commute)
  finally show ?thesis .
qed

lemma qualifying_rates_positive:
  "i < length (qualifying_rates ss k) \<Longrightarrow> 0 < qualifying_rates ss k ! i"
proof -
  assume "i < length (qualifying_rates ss k)"
  then have "qualifying_rates ss k ! i \<in> set (qualifying_rates ss k)" by (rule nth_mem)
  then show ?thesis by (auto simp: qualifying_rates_def)
qed

subsection \<open>The claims about the detector\<close>

text \<open>
  Claim C1 says that after \<open>calculateOutliers\<close> every shipment, whatever the size of
  its group, has \<open>flag_miscalculated\<close> equal to \<open>is_overbilled\<close> or
  \<open>flag_roundup_jump\<close> or \<open>flag_charge_outlier\<close>.  The source leaves the loop body of
  a group with fewer than five positive rates before it reaches that assignment: a
  single overbilled BlueDart shipment (actual weight 1, charged weight 2) comes out
  overbilled and with \<open>flag_miscalculated\<close> still false.
\<close>

theorem miscalculated_not_recomputed_in_small_group:
  "is_overbilled
     (calculateOutliers (normalizeBlueDart example_env [bluedart_row ''600045'' 1 2 100]) ! 0)
   \<and> \<not> flag_miscalculated
     (calculateOutliers (normalizeBlueDart example_env [bluedart_row ''600045'' 1 2 100]) ! 0)"
  by code_simp

text \<open>
  Claim C2 says that the shipments are partitioned by carrier, zone and service, that a
  group with fewer than five strictly positive rates gets no \<open>flag_charge_outlier\<close>,
  and that larger groups are flagged by the floor-index percentiles of their own
  rates.  The source partitions by the text \<open>carrier_zone_service\<close>, which is the same
  for zone \<open>A_B\<close> with service \<open>C\<close> and zone \<open>A\<close> with service \<open>B_C\<close>.  In
  \<open>colliding_rows\<close> the last shipment shares carrier, zone and service with two
  shipments of positive rate only, and is flagged all the same, from the percentiles
  of the five positive rates of both triples together.
\<close>

theorem colliding_keys_share_percentiles:
  "length (triple_rates (normalizeDelhivery example_env colliding_rows)
             (normalizeDelhivery example_env colliding_rows ! 5)) = 2
   \<and> flag_charge_outlier
        (calculateOutliers (normalizeDelhivery example_env colliding_rows) ! 5)"
  by code_simp

text \<open>
  Claim C7: \<open>calculateOutliers\<close> is idempotent.  Running it on its own result gives
  that result again, every field and flag of every shipment included.
\<close>

theorem calculateOutliers_idempotent:
  "calculateOutliers (calculateOutliers ss) = calculateOutliers ss"
proof -
  have "calculateOutliers (calculateOutliers ss)
      = map (\<lambda>s. flag_in_group (qualifying_rates ss (group_key s)) s) (calculateOutliers ss)"
    by (subst calculateOutliers_map) (simp add: qualifying_rates_calculateOutliers)
  also have "\<dots> = calculateOutliers ss"
    by (simp add: calculateOutliers_map flag_in_group_idem)
  finally show ?thesis .
qed

text \<open>
  Claim C9: when at least five shipments with the carrier, zone and service of a
  shipment have a strictly positive \<open>per_kg_rate\<close>, and the shipment's own rate is 0,
  the detector sets its \<open>flag_charge_outlier\<close>: the lower threshold is one of the
  positive rates.
\<close>

theorem zero_rate_member_flagged:
  assumes "j < length ss"
    and "per_kg_rate (ss ! j) = 0"
    and "5 \<le> length (triple_rates ss (ss ! j))"
  shows "flag_charge_outlier (calculateOutliers ss ! j)"
proof -
  let ?r = "qualifying_rates ss (group_key (ss ! j))"
  have n: "5 \<le> length ?r" using assms(3) triple_rates_le [of ss "ss ! j"] by linarith
  then have "percentile_index (length ?r) (5 / 100) < length ?r"
    by (intro percentile_index_less) auto
  then have "0 < ?r ! percentile_index (length ?r) (5 / 100)"
    by (rule qualifying_rates_positive)
  then show ?thesis
    using n assms(1,2) by (simp add: calculateOutliers_nth flag_in_group_def flag_member_def Let_def)
qed

theorem zero_rate_member_flagged_witness:
  "5 < length (normalizeDelhivery example_env one_group_rows)
   \<and> per_kg_rate (normalizeDelhivery example_env one_group_rows ! 5) = 0
   \<and> 5 \<le> length (triple_rates (normalizeDelhivery example_env one_group_rows)
                 (normalizeDelhivery example_env one_group_rows ! 5))
   \<and> flag_charge_outlier (calculateOutliers (normalizeDelhivery example_env one_group_rows) ! 5)"
proof -
  have a: "5 < length (normalizeDelhivery example_env one_group_rows)" by code_simp
  have b: "per_kg_rate (normalizeDelhivery example_env one_group_rows ! 5) = 0" by code_simp
  have c: "5 \<le> length (triple_rates (normalizeDelhivery example_env one_group_rows)
                 (normalizeDelhivery example_env one_group_rows ! 5))" by code_simp
  show ?thesis using a b c zero_rate_member_flagged [OF a b c] by simp
qed


section \<open>Verification: date parsing\<close>

lemma valid_or_fall_valid: "valid_or_fall d = Some d' \<Longrightarrow> d' \<noteq> InvalidDate"
  by (cases d) (auto simp: valid_or_fall_def)

lemma iso_branch_valid: "iso_branch env s = Some d \<Longrightarrow> d \<noteq> InvalidDate"
  by (auto simp: iso_branch_def split: if_splits dest: valid_or_fall_valid)

lemma delhivery_branch_valid: "delhivery_branch env s = Some d \<Longrightarrow> d \<noteq> InvalidDate"
  by (auto simp: delhivery_branch_def Let_def split: if_splits dest: valid_or_fall_valid)

lemma bluedart_branch_valid: "bluedart_branch env s = Some d \<Longrightarrow> d \<noteq> InvalidDate"
  by (auto simp: bluedart_branch_def Let_def split: if_splits option.splits dest: valid_or_fall_valid)

lemma parseDate_valid: "parseDate env s \<noteq> InvalidDate"
  by (auto simp: parseDate_def split: option.splits jsdate.splits
      dest: iso_branch_valid delhivery_branch_valid bluedart_branch_valid)

lemma parseDate_bluedart_example: "parseDate env ''07-Jul-25'' = Date 1751846400000"
  by code_simp

lemma MakeDate_example: "MakeDate 2025 7 7 = 1751846400000"
  by code_simp

lemma digit_plain: "is_digit c \<Longrightarrow> c \<noteq> CHR ''-'' \<and> c \<noteq> CHR 0x20 \<and> \<not> js_whitespace c"
  by (auto simp: is_digit_def js_whitespace_def)

lemma letter_plain: "is_letter c \<Longrightarrow> c \<noteq> CHR ''-'' \<and> c \<noteq> CHR 0x20 \<and> \<not> js_whitespace c"
  by (auto simp: is_letter_def js_whitespace_def)

lemma prototype_member_length3:
  assumes "length k = 3"
  shows "object_prototype_member k = None"
proof -
  have "k \<noteq> ''__proto__''" "k \<noteq> ''constructor''"
    using assms by auto
  moreover have "k \<notin> set [''__defineGetter__'', ''__defineSetter__'', ''__lookupGetter__'',
                        ''__lookupSetter__'', ''hasOwnProperty'', ''isPrototypeOf'',
                        ''propertyIsEnumerable'', ''toLocaleString'', ''toString'', ''valueOf'']"
    using assms by auto
  ultimately show ?thesis
    by (simp only: object_prototype_member_def if_False)
qed

lemma dd_mmm_yy_shape:
  assumes "is_dd_mmm_yy s"
  obtains a b c d e f g where "s = [a, b, CHR ''-'', c, d, e, CHR ''-'', f, g]"
    "is_digit a" "is_digit b" "is_letter c" "is_letter d" "is_letter e" "is_digit f" "is_digit g"
proof -
  from assms have "length s = 9" by (simp add: is_dd_mmm_yy_def)
  then obtain a b x c d e y f g where s: "s = [a, b, x, c, d, e, y, f, g]"
    by (auto simp: numeral_eq_Suc length_Suc_conv)
  with assms that show thesis by (simp add: is_dd_mmm_yy_def)
qed

text \<open>
  Claim C6: for every string, \<open>parseDate\<close> returns, and returns a valid date:
  every \<open>return\<close> of the source is either guarded by the validity test or is the
  clock.  \<open>parseDate("07-Jul-25")\<close> is midnight UTC of 7 July 2025, whatever the
  environment, and \<open>parseDate("")\<close> is the clock.  (The function is total in the
  model because nothing in the body of the source raises on a string.)
\<close>

theorem parseDate_always_valid:
  "parseDate env dateStr \<noteq> InvalidDate
   \<and> parseDate env ''07-Jul-25'' = Date (MakeDate 2025 7 7)
   \<and> MakeDate 2025 7 7 = 1751846400000
   \<and> parseDate env [] = Date (now env)"
  by (simp add: parseDate_valid parseDate_bluedart_example MakeDate_example)
     (simp add: parseDate_def)

text \<open>
  Claim C10: the month table is read with the token as it is written.  For an input
  of the shape \<open>DD-MMM-YY\<close> whose month token is not one of the twelve keys
  \<open>Jan\<close> .. \<open>Dec\<close>, the month branch returns nothing, and the result is what
  \<open>parseISO\<close> makes of the input when that is a valid date, and the clock otherwise.
\<close>

theorem month_lookup_case_sensitive:
  assumes "is_dd_mmm_yy s" and "month_token s \<notin> fst ` set months"
  shows "bluedart_branch env s = None
       \<and> parseDate env s = (case parseISO env s of InvalidDate \<Rightarrow> Date (now env) | Date t \<Rightarrow> Date t)"
proof -
  from assms(1) obtain a b c d e f g where s: "s = [a, b, CHR ''-'', c, d, e, CHR ''-'', f, g]"
    and dl: "is_digit a" "is_digit b" "is_letter c" "is_letter d" "is_letter e" "is_digit f" "is_digit g"
    by (rule dd_mmm_yy_shape)
  have nd: "a \<noteq> CHR ''-''" "b \<noteq> CHR ''-''" "c \<noteq> CHR ''-''" "d \<noteq> CHR ''-''" "e \<noteq> CHR ''-''"
      "f \<noteq> CHR ''-''" "g \<noteq> CHR ''-''"
    using dl digit_plain letter_plain by blast+
  have ns: "a \<noteq> CHR 0x20" "b \<noteq> CHR 0x20" "c \<noteq> CHR 0x20" "d \<noteq> CHR 0x20" "e \<noteq> CHR 0x20"
      "f \<noteq> CHR 0x20" "g \<noteq> CHR 0x20"
    using dl digit_plain letter_plain by blast+
  have nw: "\<not> js_whitespace a" "\<not> js_whitespace c" "\<not> js_whitespace e" "\<not> js_whitespace g"
    using dl digit_plain letter_plain by blast+
  have sp: "js_split CHR ''-'' s = [[a, b], [c, d, e], [f, g]]"
    using nd by (simp add: s)
  have nosp: "\<not> js_includes s CHR 0x20"
    using ns by (simp add: s js_includes_def)
  have tr: "trim [c, d, e] = [c, d, e]" "trim s \<noteq> []"
    using nw by (simp_all add: s trim_def)
  have "map_of months [c, d, e] = None"
    using assms(2) by (simp add: s month_token_def map_of_eq_None_iff)
  then have look: "object_get months [c, d, e] = None"
    by (simp add: object_get_def prototype_member_length3)
  have iso: "iso_branch env s = None"
    by (simp add: iso_branch_def matches_iso_date_def s)
  have del: "delhivery_branch env s = None"
    using nosp by (simp add: delhivery_branch_def)
  have blue: "bluedart_branch env s = None"
    using look by (simp add: bluedart_branch_def Let_def sp tr(1))
  have ne: "s \<noteq> []" by (simp add: s)
  show ?thesis
    using iso del blue tr(2) ne by (simp add: parseDate_def)
qed

theorem month_lookup_case_sensitive_witness:
  "is_dd_mmm_yy ''07-JUL-25'' \<and> month_token ''07-JUL-25'' \<notin> fst ` set months
   \<and> bluedart_branch example_env ''07-JUL-25'' = None
   \<and> parseDate example_env ''07-JUL-25'' = Date (now example_env)
   \<and> is_dd_mmm_yy ''07-jul-25'' \<and> month_token ''07-jul-25'' \<notin> fst ` set months
   \<and> bluedart_branch example_env ''07-jul-25'' = None
   \<and> parseDate example_env ''07-jul-25'' = Date (now example_env)"
proof -
  have a: "is_dd_mmm_yy ''07-JUL-25''" by (simp add: is_dd_mmm_yy_def is_digit_def is_letter_def)
  have b: "month_token ''07-JUL-25'' \<notin> fst ` set months" by (simp add: month_token_def months_def)
  have c: "parseISO example_env ''07-JUL-25'' = InvalidDate" by (simp add: example_env_def)
  have a': "is_dd_mmm_yy ''07-jul-25''" by (simp add: is_dd_mmm_yy_def is_digit_def is_letter_def)
  have b': "month_token ''07-jul-25'' \<notin> fst ` set months" by (simp add: month_token_def months_def)
  have c': "parseISO example_env ''07-jul-25'' = InvalidDate" by (simp add: example_env_def)
  show ?thesis
    using a b c a' b' c' month_lookup_case_sensitive [OF a b, of example_env]
      month_lookup_case_sensitive [OF a' b', of example_env]
    by simp
qed


section \<open>Verification: normalisation\<close>

text \<open>
  Claim C5 says that \<open>flag_missing_actual\<close> is true exactly when the actual weight
  is at most 0, negative weights included.  The source tests the weight for zero.  A
  BlueDart row with \<open>ACT_WT = -1\<close> has a negative actual weight and the flag false.
\<close>

theorem negative_actual_weight_not_flagged:
  "actual_weight_kg (normalizeBlueDart example_env [bluedart_row ''600045'' (- 1) 2 100] ! 0) \<le> 0
   \<and> \<not> flag_missing_actual (normalizeBlueDart example_env [bluedart_row ''600045'' (- 1) 2 100] ! 0)"
  by code_simp

text \<open>
  Claim C5 as amended: both normalisers set \<open>flag_missing_actual\<close> exactly when
  \<open>actual_weight_kg\<close> is 0.  For \<open>normalizeDelhivery\<close>, whose actual weight is
  never negative, that is the same as being at most 0.
\<close>

theorem flag_missing_actual_iff_zero:
  "(\<forall>s\<in>set (normalizeBlueDart env rows). flag_missing_actual s \<longleftrightarrow> actual_weight_kg s = 0)
   \<and> (\<forall>s\<in>set (normalizeDelhivery env drows).
         (flag_missing_actual s \<longleftrightarrow> actual_weight_kg s = 0)
         \<and> (flag_missing_actual s \<longleftrightarrow> actual_weight_kg s \<le> 0))"
  by (auto simp: normalizeBlueDart_def normalizeBlueDartRow_def normalizeDelhivery_def
      normalizeDelhiveryRow_def Let_def split: if_splits)

theorem flag_missing_actual_iff_zero_witness:
  "normalizeBlueDart example_env [bluedart_row ''600045'' 0 2 100] ! 0
     \<in> set (normalizeBlueDart example_env [bluedart_row ''600045'' 0 2 100])
   \<and> flag_missing_actual (normalizeBlueDart example_env [bluedart_row ''600045'' 0 2 100] ! 0)
   \<and> actual_weight_kg (normalizeBlueDart example_env [bluedart_row ''600045'' 0 2 100] ! 0) = 0
   \<and> normalizeDelhivery example_env one_group_rows ! 0 \<in> set (normalizeDelhivery example_env one_group_rows)
   \<and> flag_missing_actual (normalizeDelhivery example_env one_group_rows ! 0)
   \<and> actual_weight_kg (normalizeDelhivery example_env one_group_rows ! 0) \<le> 0"
proof -
  have a: "normalizeBlueDart example_env [bluedart_row ''600045'' 0 2 100] ! 0
     \<in> set (normalizeBlueDart example_env [bluedart_row ''600045'' 0 2 100])"
    by (simp add: normalizeBlueDart_def)
  have "0 < length (normalizeDelhivery example_env one_group_rows)"
    by code_simp
  then have b: "normalizeDelhivery example_env one_group_rows ! 0 \<in> set (normalizeDelhivery example_env one_group_rows)"
    by (rule nth_mem)
  have c: "actual_weight_kg (normalizeBlueDart example_env [bluedart_row ''600045'' 0 2 100] ! 0) = 0"
    by code_simp
  have d: "actual_weight_kg (normalizeDelhivery example_env one_group_rows ! 0) \<le> 0"
    by code_simp
  show ?thesis
    using a b c d
      flag_missing_actual_iff_zero [of example_env "[bluedart_row ''600045'' 0 2 100]" one_group_rows]
    by blast
qed


section \<open>Verification: ranking of PIN codes\<close>

lemma pin_count_snoc:
  "pin_count (xs @ [x]) q = (if pin x = q then pin_count xs q + 1 else pin_count xs q)"
  by (simp add: pin_count_def)

lemma pin_total_snoc:
  "pin_total (xs @ [x]) q = (if pin x = q then pin_total xs q + line_amount x else pin_total xs q)"
  by (simp add: pin_total_def)

lemma pinGroups_add_map:
  assumes "distinct ks"
  shows "pinGroups_add p a (map (\<lambda>q. (q, c q, t q)) ks) =
           (if p \<in> set ks
            then map (\<lambda>q. (q, if p = q then c q + 1 else c q, if p = q then t q + a else t q)) ks
            else map (\<lambda>q. (q, c q, t q)) ks @ [(p, 1, a)])"
  using assms by (induction ks) auto

lemma encountered_pins_snoc:
  "encountered_pins (xs @ [x]) =
     (if object_prototype_member (pin x) \<noteq> None \<or> pin x \<in> set (encountered_pins xs)
      then encountered_pins xs else encountered_pins xs @ [pin x])"
  by (auto simp: encountered_pins_def)

lemma set_encountered_pins:
  "set (encountered_pins xs) = {p \<in> pin ` set xs. object_prototype_member p = None}"
  by (auto simp: encountered_pins_def)

lemma distinct_encountered_pins: "distinct (encountered_pins xs)"
  by (simp add: encountered_pins_def)

lemma pinGroups_fold:
  "foldl pinGroups_step [] xs =
     map (\<lambda>q. (q, pin_count xs q, pin_total xs q)) (encountered_pins xs)"
proof (induction xs rule: rev_induct)
  case Nil
  then show ?case by (simp add: encountered_pins_def)
next
  case (snoc x xs)
  let ?p = "pin x"
  let ?acc = "map (\<lambda>q. (q, pin_count xs q, pin_total xs q)) (encountered_pins xs)"
  have fold: "foldl pinGroups_step [] (xs @ [x]) = pinGroups_step ?acc x"
    by (simp only: foldl_append foldl.simps snoc.IH)
  show ?case
  proof (cases "object_prototype_member ?p \<noteq> None")
    case True
    then have "?p \<notin> set (encountered_pins xs)" by (auto simp: set_encountered_pins)
    then have "map (\<lambda>q. (q, pin_count (xs @ [x]) q, pin_total (xs @ [x]) q)) (encountered_pins xs) = ?acc"
      by (intro map_cong) (auto simp: pin_count_snoc pin_total_snoc)
    with True show ?thesis
      unfolding fold by (simp add: pinGroups_step_def encountered_pins_snoc)
  next
    case False
    then have step: "pinGroups_step ?acc x = pinGroups_add ?p (line_amount x) ?acc"
      by (simp add: pinGroups_step_def)
    show ?thesis
    proof (cases "?p \<in> set (encountered_pins xs)")
      case True
      with False show ?thesis
        unfolding fold step
        by (simp add: pinGroups_add_map [OF distinct_encountered_pins] encountered_pins_snoc
            pin_count_snoc pin_total_snoc)
    next
      case nin: False
      with False have "?p \<notin> pin ` set xs"
        by (simp add: set_encountered_pins)
      then have "\<forall>s\<in>set xs. pin s \<noteq> ?p"
        by (metis imageI)
      then have none: "filter (\<lambda>s. pin s = ?p) xs = []"
        by (simp add: filter_empty_conv)
      have same: "map (\<lambda>q. (q, pin_count (xs @ [x]) q, pin_total (xs @ [x]) q)) (encountered_pins xs) = ?acc"
        using nin by (intro map_cong) (auto simp: pin_count_snoc pin_total_snoc)
      have new: "pin_count (xs @ [x]) ?p = 1" "pin_total (xs @ [x]) ?p = line_amount x"
        using none by (simp_all add: pin_count_def pin_total_def)
      show ?thesis
        using nin False same new
        unfolding fold step
        by (simp add: pinGroups_add_map [OF distinct_encountered_pins] encountered_pins_snoc)
    qed
  qed
qed

lemma insort_key_map:
  "insort_key f (h x) (map h ys) = map h (insort_key (\<lambda>a. f (h a)) x ys)"
  by (induction ys) auto

lemma sort_key_map:
  "sort_key f (map h xs) = map h (sort_key (\<lambda>a. f (h a)) xs)"
  by (induction xs) (simp_all add: insort_key_map)

lemma object_entries_map:
  assumes "\<And>k. fst (h k) = k"
  shows "object_entries (map h ks) = map h (entries_order ks)"
  by (simp add: object_entries_def entries_order_def filter_map comp_def assms sort_key_map)

lemma topProblematicPins_eq:
  "topProblematicPins ss =
     take 10 (sort_key (\<lambda>e. - count' e)
       (map (pin_entry (filter is_overbilled ss))
          (entries_order (encountered_pins (filter is_overbilled ss)))))"
proof (cases "ss = []")
  case True
  then show ?thesis
    by (simp add: topProblematicPins_def encountered_pins_def entries_order_def)
next
  case False
  let ?o = "filter is_overbilled ss"
  have "object_entries (foldl pinGroups_step [] ?o)
      = map (\<lambda>q. (q, pin_count ?o q, pin_total ?o q)) (entries_order (encountered_pins ?o))"
    unfolding pinGroups_fold by (rule object_entries_map) simp
  then show ?thesis
    using False
    by (simp add: topProblematicPins_def Let_def pin_entry_def [abs_def] comp_def)
qed

lemma sorted_desc_sort_key:
  "sorted_wrt (\<lambda>a b. f b \<le> (f a :: int)) (sort_key (\<lambda>e. - f e) xs)"
proof -
  have "sorted (map (\<lambda>e. - f e) (sort_key (\<lambda>e. - f e) xs))" by (rule sorted_sort_key)
  then show ?thesis by (simp add: sorted_map)
qed

lemma entries_order_no_index:
  "\<forall>k\<in>set ks. \<not> is_array_index k \<Longrightarrow> entries_order ks = ks"
  by (simp add: entries_order_def filter_empty_conv)

text \<open>
  Claim C4 says that PINs with equal counts are listed in the order in which they
  were first met in the input.  \<open>Object.entries\<close> lists numeric keys first and in
  ascending order: of two overbilled shipments with PINs 600002 and 600001, in that
  order and one shipment each, the entry of 600001 comes first.
\<close>

theorem numeric_pins_ranked_ascending:
  "map pin (normalizeBlueDart example_env numeric_pin_rows) = [''600002'', ''600001'']
   \<and> map is_overbilled (normalizeBlueDart example_env numeric_pin_rows) = [True, True]
   \<and> map pin' (topProblematicPins (normalizeBlueDart example_env numeric_pin_rows))
       = [''600001'', ''600002'']
   \<and> map count' (topProblematicPins (normalizeBlueDart example_env numeric_pin_rows)) = [1, 1]"
  by code_simp

text \<open>
  Claim C4 as amended: \<open>topProblematicPins\<close> has at most 10 entries.  It is the
  first ten of a list with one entry for each PIN of an overbilled shipment (PINs that
  name a member of \<open>Object.prototype\<close> aside), each entry with the number
  of overbilled shipments of that PIN and the sum of their \<open>line_amount\<close>, in
  descending order of that number.  Entries with equal numbers keep the order of
  \<open>Object.entries\<close>: the PINs that are array indices first, ascending by value, then
  the others as first met; when no PIN is an array index that is the order of first
  encounter.
\<close>

theorem topProblematicPins_ranking:
  "length (topProblematicPins ss) \<le> 10
   \<and> topProblematicPins ss =
       take 10 (sort_key (\<lambda>e. - count' e)
         (map (pin_entry (filter is_overbilled ss))
            (entries_order (encountered_pins (filter is_overbilled ss)))))
   \<and> sorted_wrt (\<lambda>a b. count' b \<le> count' a) (topProblematicPins ss)
   \<and> (\<forall>c. filter (\<lambda>e. count' e = c)
             (sort_key (\<lambda>e. - count' e)
                (map (pin_entry (filter is_overbilled ss))
                   (entries_order (encountered_pins (filter is_overbilled ss)))))
          = filter (\<lambda>e. count' e = c)
              (map (pin_entry (filter is_overbilled ss))
                 (entries_order (encountered_pins (filter is_overbilled ss)))))
   \<and> ((\<forall>p\<in>set (encountered_pins (filter is_overbilled ss)). \<not> is_array_index p)
        \<longrightarrow> entries_order (encountered_pins (filter is_overbilled ss))
            = encountered_pins (filter is_overbilled ss))"
proof -
  let ?full = "sort_key (\<lambda>e. - count' e)
         (map (pin_entry (filter is_overbilled ss))
            (entries_order (encountered_pins (filter is_overbilled ss))))"
  have eq: "topProblematicPins ss = take 10 ?full" by (rule topProblematicPins_eq)
  have len: "length (topProblematicPins ss) \<le> 10" unfolding eq by simp
  have "sorted_wrt (\<lambda>a b. count' b \<le> count' a) ?full" by (rule sorted_desc_sort_key)
  then have srt: "sorted_wrt (\<lambda>a b. count' b \<le> count' a) (topProblematicPins ss)"
    unfolding eq by (rule sorted_wrt_take)
  have stable: "filter (\<lambda>e. count' e = c) ?full
          = filter (\<lambda>e. count' e = c)
              (map (pin_entry (filter is_overbilled ss))
                 (entries_order (encountered_pins (filter is_overbilled ss))))" for c
    using sort_key_stable [of "\<lambda>e. - count' e" "- c"] by simp
  show ?thesis
    using eq len srt stable entries_order_no_index by blast
qed

theorem topProblematicPins_ranking_witness:
  "\<not> is_array_index ''PIN-B'' \<and> \<not> is_array_index ''PIN-A''
   \<and> encountered_pins (filter is_overbilled (normalizeBlueDart example_env lettered_pin_rows))
       = [''PIN-B'', ''PIN-A'']
   \<and> entries_order [''PIN-B'', ''PIN-A''] = [''PIN-B'', ''PIN-A'']
   \<and> length (topProblematicPins (normalizeBlueDart example_env lettered_pin_rows)) \<le> 10
   \<and> map pin' (topProblematicPins (normalizeBlueDart example_env lettered_pin_rows))
       = [''PIN-B'', ''PIN-A'']
   \<and> map count' (topProblematicPins (normalizeBlueDart example_env lettered_pin_rows)) = [2, 1]
   \<and> map totalValue (topProblematicPins (normalizeBlueDart example_env lettered_pin_rows)) = [150, 100]"
proof -
  let ?ss = "normalizeBlueDart example_env lettered_pin_rows"
  have enc: "encountered_pins (filter is_overbilled ?ss) = [''PIN-B'', ''PIN-A'']"
    by code_simp
  have noidx: "\<forall>p\<in>set (encountered_pins (filter is_overbilled ?ss)). \<not> is_array_index p"
    unfolding enc by (simp add: is_array_index_def is_digit_def)
  have vals: "map pin' (topProblematicPins ?ss) = [''PIN-B'', ''PIN-A'']"
    "map count' (topProblematicPins ?ss) = [2, 1]"
    "map totalValue (topProblematicPins ?ss) = [150, 100]"
    by code_simp+
  have noidx': "\<not> is_array_index ''PIN-B''" "\<not> is_array_index ''PIN-A''"
    by (simp_all add: is_array_index_def is_digit_def)
  show ?thesis
    using topProblematicPins_ranking [of ?ss] enc noidx noidx' vals by simp
qed


section \<open>Verification: CSV export\<close>

subsection \<open>Splitting, joining and printing\<close>

lemma js_split_nonempty: "js_split c s \<noteq> []"
  by (induction s) (auto split: list.splits)

lemma js_split_no_separator: "c \<notin> set x \<Longrightarrow> js_split c x = [x]"
  by (induction x) auto

lemma js_split_append:
  "c \<notin> set x \<Longrightarrow> js_split c (x @ c # rest) = x # js_split c rest"
  by (induction x) (auto split: list.splits)

lemma js_split_join:
  "xs \<noteq> [] \<Longrightarrow> \<forall>x\<in>set xs. c \<notin> set x \<Longrightarrow> js_split c (js_join [c] xs) = xs"
proof (induction "[c]" xs rule: js_join.induct)
  case 1
  then show ?case by simp
next
  case (2 x)
  then show ?case by (simp add: js_split_no_separator)
next
  case (3 x y ys)
  then show ?case by (simp add: js_split_append)
qed

lemma js_join_inject:
  assumes "xs \<noteq> []" "ys \<noteq> []"
    and "\<forall>x\<in>set xs. c \<notin> set x" "\<forall>y\<in>set ys. c \<notin> set y"
    and "js_join [c] xs = js_join [c] ys"
  shows "xs = ys"
  using assms js_split_join by metis

lemma number_of_digits_snoc:
  "number_of_digits (ds @ [c]) = 10 * number_of_digits ds + digit_value c"
  by (simp add: number_of_digits_def)

lemma digit_char_nth: "d < 10 \<Longrightarrow> digit_char d = ''0123456789'' ! d"
  by (simp add: digit_char_def)

lemma digit_value_digit_char:
  assumes "d < 10"
  shows "digit_value (digit_char d) = int d"
proof -
  have eq: "map digit_value ''0123456789'' = map int [0..<10]"
    by (simp add: digit_value_def upt_rec numeral_eq_Suc)
  have l: "d < length ''0123456789''" using assms by simp
  have "digit_value (''0123456789'' ! d) = map digit_value ''0123456789'' ! d"
    by (rule nth_map [OF l, symmetric])
  also have "\<dots> = map int [0..<10] ! d" by (simp only: eq)
  also have "\<dots> = int d" using assms by (simp del: upt_Suc)
  finally show ?thesis by (simp only: digit_char_def)
qed

lemma number_of_digits_show_decimal: "0 \<le> n \<Longrightarrow> number_of_digits (show_decimal n) = n"
proof (induction n rule: show_decimal.induct)
  case (1 n)
  show ?case
  proof (cases "n < 10")
    case True
    with 1(2) have "nat n < 10" by simp
    with True 1(2) show ?thesis
      by (subst show_decimal.simps) (simp add: number_of_digits_def digit_value_digit_char)
  next
    case False
    with 1 have "number_of_digits (show_decimal (n div 10)) = n div 10" by simp
    moreover have "nat (n mod 10) < 10" by simp
    ultimately show ?thesis
      using False
      by (subst show_decimal.simps) (simp add: number_of_digits_snoc digit_value_digit_char)
  qed
qed

lemma is_digit_digit_char:
  assumes "d < 10"
  shows "is_digit (digit_char d)"
proof -
  have "list_all is_digit ''0123456789''" by (simp add: is_digit_def)
  then show ?thesis
    using assms unfolding digit_char_def list_all_length by simp
qed

lemma show_decimal_digits: "list_all is_digit (show_decimal n)"
proof (induction n rule: show_decimal.induct)
  case (1 n)
  show ?case
  proof (cases "n < 10")
    case True
    then have "nat n < 10" by simp
    with True show ?thesis by (subst show_decimal.simps) (simp add: is_digit_digit_char)
  next
    case False
    have "nat (n mod 10) < 10" by simp
    with False 1 show ?thesis by (subst show_decimal.simps) (simp add: is_digit_digit_char)
  qed
qed

lemma show_decimal_inject:
  "0 \<le> m \<Longrightarrow> 0 \<le> n \<Longrightarrow> show_decimal m = show_decimal n \<Longrightarrow> m = n"
  by (metis number_of_digits_show_decimal)

lemma show_decimal_no_minus: "show_decimal n \<noteq> CHR ''-'' # ds"
proof
  assume "show_decimal n = CHR ''-'' # ds"
  with show_decimal_digits [of n] have "is_digit CHR ''-''" by simp
  then show False by (simp add: is_digit_def)
qed

lemma show_int_inject:
  assumes "show_int i = show_int j"
  shows "i = j"
proof (cases "i < 0")
  case True
  show ?thesis
  proof (cases "j < 0")
    case j: True
    with True assms have "show_decimal (- i) = show_decimal (- j)"
      by (simp add: show_int_def)
    with True j have "- i = - j" by (intro show_decimal_inject) simp_all
    then show ?thesis by simp
  next
    case False
    with True assms have "show_decimal j = CHR ''-'' # show_decimal (- i)"
      by (simp add: show_int_def)
    then show ?thesis using show_decimal_no_minus by blast
  qed
next
  case False
  show ?thesis
  proof (cases "j < 0")
    case True
    with False assms have "show_decimal i = CHR ''-'' # show_decimal (- j)"
      by (simp add: show_int_def)
    then show ?thesis using show_decimal_no_minus by blast
  next
    case j: False
    with False assms have "show_decimal i = show_decimal j"
      by (simp add: show_int_def)
    with False j show ?thesis by (intro show_decimal_inject) simp_all
  qed
qed

lemma carrier_name_inject: "carrier_name a = carrier_name b \<Longrightarrow> a = b"
  by (cases a; cases b) (simp_all add: carrier_name_def)

lemma yes_no_inject: "yes_no a = yes_no b \<Longrightarrow> a = b"
  by (cases a; cases b) (simp_all add: yes_no_def)

lemma quoted_inject: "quoted a = quoted b \<Longrightarrow> a = b"
  by (simp add: quoted_def)

lemma map_result_total:
  assumes "\<forall>x\<in>set xs. \<exists>y. f x = Inr y"
  shows "\<exists>ys. map_result f xs = Inr ys \<and> length ys = length xs
           \<and> (\<forall>i<length xs. f (xs ! i) = Inr (ys ! i))"
  using assms
proof (induction xs)
  case Nil
  then show ?case by simp
next
  case (Cons x xs)
  then obtain y where y: "f x = Inr y" by auto
  from Cons obtain ys where ys: "map_result f xs = Inr ys" "length ys = length xs"
      "\<forall>i<length xs. f (xs ! i) = Inr (ys ! i)"
    by auto
  have "\<forall>i<length (x # xs). f ((x # xs) ! i) = Inr ((y # ys) ! i)"
    using y ys(3) by (auto simp: nth_Cons split: nat.splits)
  with y ys show ?case by simp
qed

lemma csv_fields_total:
  "pickup_date s \<noteq> InvalidDate \<Longrightarrow> \<exists>r. csv_fields env s = Inr r"
  by (cases "pickup_date s") (simp_all add: csv_fields_def format_date_def)

lemma csv_fields_Inr:
  assumes "csv_fields env s = Inr r"
  obtains d where "format_date env (pickup_date s) = Inr d"
    "r = [d, carrier_name (carrier s), awb s, quoted (origin s), quoted (destination s),
          pin s, show_int (pieces s), toFixed env 3 (actual_weight_kg s),
          toFixed env 3 (charged_weight_kg s), toFixed env 3 (weight_diff_kg s),
          toFixed env 2 (weight_diff_percent s), toFixed env 2 (line_amount s),
          toFixed env 2 (per_kg_rate s), toFixed env 2 (product_value s),
          quoted (service s), zone s, quoted (status s),
          yes_no (flag_high_uplift s), yes_no (flag_roundup_jump s),
          yes_no (flag_value_weight_mismatch s), yes_no (flag_charge_outlier s),
          yes_no (flag_missing_actual s)]"
proof (cases "format_date env (pickup_date s)")
  case (Inl e)
  with assms show ?thesis by (simp add: csv_fields_def)
next
  case (Inr d)
  with assms that [of d] show ?thesis by (simp add: csv_fields_def)
qed

lemma csv_fields_layout:
  assumes "csv_fields env s = Inr r"
  shows "csv_layout env s r"
proof -
  from assms obtain d where d: "format_date env (pickup_date s) = Inr d"
    and r: "r = [d, carrier_name (carrier s), awb s, quoted (origin s), quoted (destination s),
          pin s, show_int (pieces s), toFixed env 3 (actual_weight_kg s),
          toFixed env 3 (charged_weight_kg s), toFixed env 3 (weight_diff_kg s),
          toFixed env 2 (weight_diff_percent s), toFixed env 2 (line_amount s),
          toFixed env 2 (per_kg_rate s), toFixed env 2 (product_value s),
          quoted (service s), zone s, quoted (status s),
          yes_no (flag_high_uplift s), yes_no (flag_roundup_jump s),
          yes_no (flag_value_weight_mismatch s), yes_no (flag_charge_outlier s),
          yes_no (flag_missing_actual s)]"
    by (rule csv_fields_Inr)
  show ?thesis unfolding csv_layout_def r by (simp add: d)
qed

lemma show_decimal_nonempty: "show_decimal n \<noteq> []"
  using show_decimal.simps [of n] by (cases "n < 10") simp_all

lemma number_of_digits_zeros:
  "number_of_digits (replicate z CHR ''0'' @ ds) = number_of_digits ds"
  by (induction z) (simp_all add: number_of_digits_def digit_value_def)

lemma filter_digits_assembled:
  assumes "list_all is_digit m"
  shows "filter is_digit
           ((if neg then ''-'' else []) @ (if f = 0 then m else take k m @ ''.'' @ drop k m)) = m"
proof -
  have nd: "\<not> is_digit CHR ''-''" "\<not> is_digit CHR ''.''" by (simp_all add: is_digit_def)
  have all: "filter is_digit m = m" using assms by (simp add: list_all_iff)
  have "filter is_digit (take k m @ ''.'' @ drop k m)
      = filter is_digit (take k m) @ filter is_digit (drop k m)"
    using nd by simp
  also have "\<dots> = filter is_digit (take k m @ drop k m)" by (simp only: filter_append)
  also have "\<dots> = m" using all by (simp only: append_take_drop_id)
  finally show ?thesis using nd all by simp
qed

lemma hd_assembled:
  assumes "list_all is_digit m" "f < length m"
  shows "hd ((if neg then ''-'' else []) @ (if f = 0 then m else take (length m - f) m @ ''.'' @ drop (length m - f) m))
           = CHR ''-'' \<longleftrightarrow> neg"
proof -
  from assms(2) obtain c cs where m: "m = c # cs" by (cases m) auto
  with assms(1) have c: "c \<noteq> CHR ''-''" by (auto simp: is_digit_def)
  have "0 < length m - f" using assms(2) by simp
  then have "hd (take (length m - f) m @ ''.'' @ drop (length m - f) m) = c"
    unfolding m by (cases "length (c # cs) - f") simp_all
  with c m show ?thesis by (cases neg) auto
qed

lemma toFixed_unfold:
  assumes "\<bar>x\<bar> < 10 ^ 21"
  obtains m where "list_all is_digit m" "f < length m"
    "number_of_digits m = \<lfloor>\<bar>x\<bar> * 10 ^ f + 1 / 2\<rfloor>"
    "toFixed env f x = (if x < 0 then ''-'' else [])
        @ (if f = 0 then m else take (length m - f) m @ ''.'' @ drop (length m - f) m)"
proof -
  define n where "n = \<lfloor>\<bar>x\<bar> * 10 ^ f + 1 / 2\<rfloor>"
  define m where "m = replicate (f + 1 - length (show_decimal n)) CHR ''0'' @ show_decimal n"
  have n0: "0 \<le> n" unfolding n_def by simp
  have "is_digit CHR ''0''" by (simp add: is_digit_def)
  then have dig: "list_all is_digit m"
    unfolding m_def using show_decimal_digits [of n] by (auto simp: list_all_iff)
  have len: "f < length m" unfolding m_def by simp
  have num: "number_of_digits m = n"
    unfolding m_def using number_of_digits_show_decimal [OF n0] by (simp add: number_of_digits_zeros)
  have "toFixed env f x = (if x < 0 then ''-'' else [])
        @ (if f = 0 then m else take (length m - f) m @ ''.'' @ drop (length m - f) m)"
    using assms unfolding toFixed_def Let_def m_def n_def by simp
  with dig len num that [of m] show thesis unfolding n_def by blast
qed

lemma toFixed_rounding:
  assumes "\<bar>x\<bar> < 10 ^ 21" "\<bar>y\<bar> < 10 ^ 21" "toFixed env f x = toFixed env f y"
  shows "\<bar>x - y\<bar> < 1 / 10 ^ f"
proof -
  let ?p = "(10::rat) ^ f"
  have p: "0 < ?p" by simp
  from assms(1) obtain m where m: "list_all is_digit m" "f < length m"
    "number_of_digits m = \<lfloor>\<bar>x\<bar> * ?p + 1 / 2\<rfloor>"
    "toFixed env f x = (if x < 0 then ''-'' else [])
        @ (if f = 0 then m else take (length m - f) m @ ''.'' @ drop (length m - f) m)"
    by (rule toFixed_unfold)
  from assms(2) obtain m' where m': "list_all is_digit m'" "f < length m'"
    "number_of_digits m' = \<lfloor>\<bar>y\<bar> * ?p + 1 / 2\<rfloor>"
    "toFixed env f y = (if y < 0 then ''-'' else [])
        @ (if f = 0 then m' else take (length m' - f) m' @ ''.'' @ drop (length m' - f) m')"
    by (rule toFixed_unfold)
  have "filter is_digit (toFixed env f x) = m"
    unfolding m(4) by (rule filter_digits_assembled [OF m(1)])
  moreover have "filter is_digit (toFixed env f y) = m'"
    unfolding m'(4) by (rule filter_digits_assembled [OF m'(1)])
  ultimately have "m = m'" using assms(3) by simp
  then have fl: "\<lfloor>\<bar>x\<bar> * ?p + 1 / 2\<rfloor> = \<lfloor>\<bar>y\<bar> * ?p + 1 / 2\<rfloor>"
    using m(3) m'(3) by simp
  have "hd (toFixed env f x) = CHR ''-'' \<longleftrightarrow> x < 0"
    unfolding m(4) by (rule hd_assembled [OF m(1,2)])
  moreover have "hd (toFixed env f y) = CHR ''-'' \<longleftrightarrow> y < 0"
    unfolding m'(4) by (rule hd_assembled [OF m'(1,2)])
  ultimately have sign: "x < 0 \<longleftrightarrow> y < 0" using assms(3) by simp
  from fl have "\<bar>(\<bar>x\<bar> * ?p + 1 / 2) - (\<bar>y\<bar> * ?p + 1 / 2)\<bar> < 1"
    by linarith
  moreover have "\<bar>x\<bar> * ?p + 1 / 2 - (\<bar>y\<bar> * ?p + 1 / 2) = (\<bar>x\<bar> - \<bar>y\<bar>) * ?p"
    by (simp add: algebra_simps)
  moreover have "\<bar>(\<bar>x\<bar> - \<bar>y\<bar>) * ?p\<bar> = \<bar>\<bar>x\<bar> - \<bar>y\<bar>\<bar> * ?p"
    by (simp add: abs_mult)
  ultimately have "\<bar>\<bar>x\<bar> - \<bar>y\<bar>\<bar> * ?p < 1"
    by simp
  then have a: "\<bar>\<bar>x\<bar> - \<bar>y\<bar>\<bar> < 1 / ?p"
    using p by (simp add: field_simps)
  have "\<bar>x - y\<bar> = \<bar>\<bar>x\<bar> - \<bar>y\<bar>\<bar>" using sign by (cases "x < 0") auto
  with a show ?thesis by simp
qed

lemma toFixed_agree:
  "toFixed env f x = toFixed env f y \<Longrightarrow> agree_to f x y"
  using toFixed_rounding [of x y env f] by (simp add: agree_to_def)

subsection \<open>The claims about the export\<close>

lemma csv_rows_layout:
  assumes "\<forall>s\<in>set ss. pickup_date s \<noteq> InvalidDate"
  obtains rows where "csv_rows env ss = Inr rows" "length rows = length ss"
    "\<forall>i<length ss. csv_fields env (ss ! i) = Inr (rows ! i)"
    "\<forall>i<length ss. csv_layout env (ss ! i) (rows ! i)"
proof -
  have "\<forall>s\<in>set ss. \<exists>r. csv_fields env s = Inr r"
    using assms csv_fields_total by blast
  then obtain rows where rows: "map_result (csv_fields env) ss = Inr rows"
      "length rows = length ss" "\<forall>i<length ss. csv_fields env (ss ! i) = Inr (rows ! i)"
    using map_result_total [of ss "csv_fields env"] by blast
  have cols: "\<forall>i<length ss. csv_layout env (ss ! i) (rows ! i)"
    using rows(3) csv_fields_layout by blast
  show thesis
    using that [of rows] rows cols by (simp add: csv_rows_def)
qed

lemma set_js_join:
  "c \<in> set (js_join sep xs) \<Longrightarrow> c \<in> set sep \<or> (\<exists>x\<in>set xs. c \<in> set x)"
  by (induction sep xs rule: js_join.induct) auto

lemma plain_text_Cons:
  "plain_text (c # t) \<longleftrightarrow> c \<noteq> CHR '','' \<and> c \<noteq> CHR 0x0A \<and> plain_text t"
  by (auto simp: plain_text_def)

lemma plain_text_append: "plain_text (a @ b) \<longleftrightarrow> plain_text a \<and> plain_text b"
  by (auto simp: plain_text_def)

lemma plain_text_take: "plain_text m \<Longrightarrow> plain_text (take k m)"
  by (auto simp: plain_text_def dest: in_set_takeD)

lemma plain_text_drop: "plain_text m \<Longrightarrow> plain_text (drop k m)"
  by (auto simp: plain_text_def dest: in_set_dropD)

lemma digits_plain:
  assumes "list_all is_digit m"
  shows "plain_text m"
proof -
  have "\<not> is_digit CHR '',''" "\<not> is_digit CHR 0x0A" by (simp_all add: is_digit_def)
  with assms show ?thesis by (auto simp: plain_text_def list_all_iff)
qed

lemma toFixed_plain:
  assumes "plain_number env x"
  shows "plain_text (toFixed env f x)"
proof (cases "\<bar>x\<bar> < 10 ^ 21")
  case True
  then obtain m where m: "list_all is_digit m"
    "toFixed env f x = (if x < 0 then ''-'' else [])
        @ (if f = 0 then m else take (length m - f) m @ ''.'' @ drop (length m - f) m)"
    by (rule toFixed_unfold)
  have pm: "plain_text m" using m(1) by (rule digits_plain)
  have sign: "plain_text (if x < 0 then ''-'' else [])" by (simp add: plain_text_def)
  have dot: "plain_text ''.''" by (simp add: plain_text_def)
  have "plain_text (if f = 0 then m else take (length m - f) m @ ''.'' @ drop (length m - f) m)"
    using pm by (simp add: plain_text_append plain_text_Cons plain_text_take plain_text_drop)
  with sign show ?thesis unfolding m(2) by (simp only: plain_text_append)
next
  case False
  with assms show ?thesis by (simp add: plain_number_def toFixed_def)
qed

lemma show_int_plain: "plain_text (show_int i)"
proof -
  have "plain_text ''-''" by (simp add: plain_text_def)
  then show ?thesis
    using digits_plain [OF show_decimal_digits]
    by (simp add: show_int_def plain_text_Cons)
qed

lemma carrier_name_plain: "plain_text (carrier_name c)"
  by (cases c) (simp_all add: carrier_name_def plain_text_def)

lemma yes_no_plain: "plain_text (yes_no b)"
  by (cases b) (simp_all add: yes_no_def plain_text_def)

lemma quoted_plain: "plain_text t \<Longrightarrow> plain_text (quoted t)"
  by (simp add: quoted_def plain_text_def)

lemma headers_plain: "\<forall>h\<in>set headers. plain_text h"
  by (simp add: headers_def plain_text_def)

lemma exportable_valid: "exportable env s \<Longrightarrow> pickup_date s \<noteq> InvalidDate"
  by (auto simp: exportable_def)

lemma row_plain:
  assumes e: "exportable env s" and r: "csv_fields env s = Inr r"
  shows "\<forall>f\<in>set r. plain_text f"
proof -
  from r obtain d where d: "format_date env (pickup_date s) = Inr d"
    and row: "r = [d, carrier_name (carrier s), awb s, quoted (origin s), quoted (destination s),
          pin s, show_int (pieces s), toFixed env 3 (actual_weight_kg s),
          toFixed env 3 (charged_weight_kg s), toFixed env 3 (weight_diff_kg s),
          toFixed env 2 (weight_diff_percent s), toFixed env 2 (line_amount s),
          toFixed env 2 (per_kg_rate s), toFixed env 2 (product_value s),
          quoted (service s), zone s, quoted (status s),
          yes_no (flag_high_uplift s), yes_no (flag_roundup_jump s),
          yes_no (flag_value_weight_mismatch s), yes_no (flag_charge_outlier s),
          yes_no (flag_missing_actual s)]"
    by (rule csv_fields_Inr)
  have date: "plain_text d"
    using e d by (cases "pickup_date s") (simp_all add: exportable_def format_date_def)
  have texts: "plain_text (awb s)" "plain_text (origin s)" "plain_text (destination s)"
      "plain_text (pin s)" "plain_text (service s)" "plain_text (zone s)" "plain_text (status s)"
    using e by (simp_all add: exportable_def)
  have nums: "plain_number env (actual_weight_kg s)" "plain_number env (charged_weight_kg s)"
      "plain_number env (weight_diff_kg s)" "plain_number env (weight_diff_percent s)"
      "plain_number env (line_amount s)" "plain_number env (per_kg_rate s)"
      "plain_number env (product_value s)"
    using e by (simp_all add: exportable_def)
  show ?thesis
    unfolding row
    by (simp add: date texts nums toFixed_plain show_int_plain carrier_name_plain yes_no_plain
        quoted_plain)
qed

lemma line_without_feed:
  assumes "\<forall>f\<in>set r. plain_text f"
  shows "CHR 0x0A \<notin> set (js_join '','' r)"
proof
  assume "CHR 0x0A \<in> set (js_join '','' r)"
  then have "CHR 0x0A \<in> set '','' \<or> (\<exists>x\<in>set r. CHR 0x0A \<in> set x)" by (rule set_js_join)
  with assms show False by (auto simp: plain_text_def)
qed

text \<open>
  Claim C3 says that every row of the export has exactly 21 columns and lists them.
  The list it gives, like the header and every row of the source, has 22 entries:
  seventeen columns of data and five flags.  The export of one shipment is two lines
  of 22 columns each.
\<close>

theorem csv_row_has_22_fields:
  "length headers = 22
   \<and> map_sum id length
        (csv_fields example_env (normalizeBlueDart example_env [bluedart_row ''600045'' 1 2 100] ! 0))
       = Inr 22
   \<and> map length
        (map (js_split CHR '','')
           (js_split CHR 0x0A
              (projr (csvContent example_env
                 (normalizeBlueDart example_env [bluedart_row ''600045'' 1 2 100])))))
       = [22, 22]"
  by code_simp

text \<open>
  Claim C3 as amended: for every list of exportable shipments (valid pickup date, no
  comma and no line feed in a column), the export is built without an error; split at
  the line feeds it has the header line and one line for each shipment; split at the
  commas the header line is the 22 header names and the line of a shipment has
  exactly 22 columns, in this order: the pickup date as \<open>format\<close> writes it for
  the pattern \<open>yyyy-MM-dd\<close>, carrier, AWB, origin, destination, PIN, pieces, actual
  weight, charged weight and weight difference with 3 decimals, weight difference in
  percent, line amount, rate per kg and product value with 2 decimals, service, zone,
  status, and the flags \<open>high_uplift\<close>, \<open>roundup_jump\<close>, \<open>value_weight_mismatch\<close>,
  \<open>charge_outlier\<close>, \<open>missing_actual\<close> as \<open>Y\<close> or \<open>N\<close>.
\<close>

theorem csv_has_22_columns:
  assumes "\<forall>s\<in>set ss. exportable env s"
  shows "\<exists>csv. csvContent env ss = Inr csv
    \<and> length (js_split CHR 0x0A csv) = 1 + length ss
    \<and> js_split CHR '','' (js_split CHR 0x0A csv ! 0) = headers
    \<and> length headers = 22
    \<and> (\<forall>i<length ss.
          csv_layout env (ss ! i) (js_split CHR '','' (js_split CHR 0x0A csv ! (i + 1))))"
proof -
  have valid: "\<forall>s\<in>set ss. pickup_date s \<noteq> InvalidDate"
    using assms exportable_valid by blast
  then obtain rows where rows: "csv_rows env ss = Inr rows" "length rows = length ss"
      "\<forall>i<length ss. csv_fields env (ss ! i) = Inr (rows ! i)"
      "\<forall>i<length ss. csv_layout env (ss ! i) (rows ! i)"
    by (rule csv_rows_layout)
  define lines where "lines = js_join '','' headers # map (js_join '','') rows"
  define csv where "csv = js_join [CHR 0x0A] lines"
  have content: "csvContent env ss = Inr csv"
    using rows(1) by (simp add: csvContent_def csv_def lines_def)
  have plain: "\<forall>f\<in>set (rows ! i). plain_text f" if "i < length ss" for i
    using that assms rows(3) row_plain [of env "ss ! i" "rows ! i"] by simp
  have nocomma: "\<forall>f\<in>set (rows ! i). CHR '','' \<notin> set f" if "i < length ss" for i
    using plain [OF that] by (simp add: plain_text_def)
  have "CHR 0x0A \<notin> set (js_join '','' headers)"
    using headers_plain by (rule line_without_feed)
  moreover have "CHR 0x0A \<notin> set (js_join '','' r)" if "r \<in> set rows" for r
  proof -
    from that obtain i where "i < length rows" "r = rows ! i" by (auto simp: in_set_conv_nth)
    then show ?thesis using plain [of i] rows(2) by (simp add: line_without_feed)
  qed
  ultimately have "\<forall>l\<in>set lines. CHR 0x0A \<notin> set l"
    by (auto simp: lines_def)
  moreover have "lines \<noteq> []" by (simp add: lines_def)
  ultimately have split: "js_split CHR 0x0A csv = lines"
    unfolding csv_def by (intro js_split_join)
  have len: "length (js_split CHR 0x0A csv) = 1 + length ss"
    unfolding split by (simp add: lines_def rows(2))
  have h22: "length headers = 22" by (simp add: headers_def)
  then have hne: "headers \<noteq> []" by auto
  have "\<forall>h\<in>set headers. CHR '','' \<notin> set h"
    using headers_plain by (simp add: plain_text_def)
  then have "js_split CHR '','' (js_join '','' headers) = headers"
    using js_split_join [OF hne, of "CHR '',''"] by simp
  then have head: "js_split CHR '','' (js_split CHR 0x0A csv ! 0) = headers"
    unfolding split by (simp add: lines_def)
  have cols: "\<forall>i<length ss.
      csv_layout env (ss ! i) (js_split CHR '','' (js_split CHR 0x0A csv ! (i + 1)))"
  proof (intro allI impI)
    fix i assume i: "i < length ss"
    from rows(4) i have lay: "csv_layout env (ss ! i) (rows ! i)" by simp
    then have "length (rows ! i) = 22" by (simp add: csv_layout_def)
    then have ne: "rows ! i \<noteq> []" by auto
    have "js_split CHR '','' (js_join '','' (rows ! i)) = rows ! i"
      using js_split_join [OF ne, of "CHR '',''"] nocomma [OF i] by simp
    moreover have "js_split CHR 0x0A csv ! (i + 1) = js_join '','' (rows ! i)"
      unfolding split using i rows(2) by (simp add: lines_def)
    ultimately show "csv_layout env (ss ! i) (js_split CHR '','' (js_split CHR 0x0A csv ! (i + 1)))"
      using lay by simp
  qed
  show ?thesis
    using content len head h22 cols by blast
qed

theorem csv_has_22_columns_witness:
  "exportable example_env (normalizeBlueDart example_env [bluedart_row ''600045'' 1 2 100] ! 0)
   \<and> map length
        (map (js_split CHR '','')
           (js_split CHR 0x0A
              (projr (csvContent example_env
                 (normalizeBlueDart example_env [bluedart_row ''600045'' 1 2 100])))))
       = [length headers, 22]"
proof -
  let ?ss = "normalizeBlueDart example_env [bluedart_row ''600045'' 1 2 100]"
  have e: "exportable example_env (?ss ! 0)" by code_simp
  have l: "length ?ss = 1" by code_simp
  then have "?ss = [?ss ! 0]" by (cases ?ss) simp_all
  then have "set ?ss = {?ss ! 0}" by (metis list.set(1) list.set(2))
  then have v: "\<forall>s\<in>set ?ss. exportable example_env s"
    using e by simp
  from csv_has_22_columns [OF v] l
  obtain csv where t: "csvContent example_env ?ss = Inr csv"
      "length (js_split CHR 0x0A csv) = 2"
      "js_split CHR '','' (js_split CHR 0x0A csv ! 0) = headers"
      "csv_layout example_env (?ss ! 0) (js_split CHR '','' (js_split CHR 0x0A csv ! 1))"
    by auto
  from t(4) have c: "length (js_split CHR '','' (js_split CHR 0x0A csv ! 1)) = 22"
    by (simp add: csv_layout_def)
  from t(2) obtain a b where ab: "js_split CHR 0x0A csv = [a, b]"
    by (auto simp: numeral_2_eq_2 length_Suc_conv)
  have "map length (map (js_split CHR '','') (js_split CHR 0x0A csv)) = [length headers, 22]"
    using t(3) c unfolding ab by simp
  with e t(1) show ?thesis by simp
qed

text \<open>
  Claim C8 says that exporting and reading the export again gives back every field and
  every flag of every shipment.  Two shipments whose charged weights differ in the
  fourth decimal have the same export, and so have two shipments that differ in
  \<open>flag_miscalculated\<close>, which is not exported.
\<close>

theorem export_loses_precision_and_flags:
  "csvContent example_env (normalizeBlueDart example_env [fine_row_a])
     = csvContent example_env (normalizeBlueDart example_env [fine_row_b])
   \<and> charged_weight_kg (normalizeBlueDart example_env [fine_row_a] ! 0)
       \<noteq> charged_weight_kg (normalizeBlueDart example_env [fine_row_b] ! 0)
   \<and> csvContent example_env [normalizeBlueDart example_env [fine_row_a] ! 0]
       = csvContent example_env
           [(normalizeBlueDart example_env [fine_row_a] ! 0)\<lparr>flag_miscalculated := True\<rparr>]
   \<and> \<not> flag_miscalculated (normalizeBlueDart example_env [fine_row_a] ! 0)"
  by code_simp

text \<open>
  Claim C8 as amended: when no column of a row contains a comma, splitting the row at
  the commas gives back its 22 columns, and two shipments with the same row have the
  same formatted pickup date, carrier, AWB, origin, destination, PIN, service, zone,
  status and piece count, the same five exported flags, and the same printed value
  (to 3 or 2 decimals) of each of the seven numbers, which therefore differ by less
  than a unit of the last printed decimal.  The numbers themselves,
  \<open>is_overbilled\<close>, \<open>is_underbilled\<close>, \<open>value_bucket\<close>, \<open>flag_miscalculated\<close> and
  the raw row are not determined by the export.
\<close>

theorem csv_line_determines_exported_columns:
  assumes "csv_fields env s = Inr r" and "csv_fields env s' = Inr r'"
    and "\<forall>f\<in>set r. CHR '','' \<notin> set f" and "\<forall>f\<in>set r'. CHR '','' \<notin> set f"
    and "js_join '','' r = js_join '','' r'"
  shows "js_split CHR '','' (js_join '','' r) = r
       \<and> exported_columns env s' = exported_columns env s
       \<and> agree_to 3 (actual_weight_kg s') (actual_weight_kg s)
       \<and> agree_to 3 (charged_weight_kg s') (charged_weight_kg s)
       \<and> agree_to 3 (weight_diff_kg s') (weight_diff_kg s)
       \<and> agree_to 2 (weight_diff_percent s') (weight_diff_percent s)
       \<and> agree_to 2 (line_amount s') (line_amount s)
       \<and> agree_to 2 (per_kg_rate s') (per_kg_rate s)
       \<and> agree_to 2 (product_value s') (product_value s)"
proof -
  from assms(1) obtain d where d: "format_date env (pickup_date s) = Inr d"
    and r: "r = [d, carrier_name (carrier s), awb s, quoted (origin s), quoted (destination s),
          pin s, show_int (pieces s), toFixed env 3 (actual_weight_kg s),
          toFixed env 3 (charged_weight_kg s), toFixed env 3 (weight_diff_kg s),
          toFixed env 2 (weight_diff_percent s), toFixed env 2 (line_amount s),
          toFixed env 2 (per_kg_rate s), toFixed env 2 (product_value s),
          quoted (service s), zone s, quoted (status s),
          yes_no (flag_high_uplift s), yes_no (flag_roundup_jump s),
          yes_no (flag_value_weight_mismatch s), yes_no (flag_charge_outlier s),
          yes_no (flag_missing_actual s)]"
    by (rule csv_fields_Inr)
  from assms(2) obtain d' where d': "format_date env (pickup_date s') = Inr d'"
    and r': "r' = [d', carrier_name (carrier s'), awb s', quoted (origin s'), quoted (destination s'),
          pin s', show_int (pieces s'), toFixed env 3 (actual_weight_kg s'),
          toFixed env 3 (charged_weight_kg s'), toFixed env 3 (weight_diff_kg s'),
          toFixed env 2 (weight_diff_percent s'), toFixed env 2 (line_amount s'),
          toFixed env 2 (per_kg_rate s'), toFixed env 2 (product_value s'),
          quoted (service s'), zone s', quoted (status s'),
          yes_no (flag_high_uplift s'), yes_no (flag_roundup_jump s'),
          yes_no (flag_value_weight_mismatch s'), yes_no (flag_charge_outlier s'),
          yes_no (flag_missing_actual s')]"
    by (rule csv_fields_Inr)
  have ne: "r \<noteq> []" "r' \<noteq> []" by (simp_all add: r r')
  have split: "js_split CHR '','' (js_join '','' r) = r"
    using js_split_join [OF ne(1) assms(3)] by simp
  have "r = r'"
    using js_join_inject [OF ne assms(3) assms(4)] assms(5) by simp
  then have eq: "d' = d" "carrier_name (carrier s') = carrier_name (carrier s)" "awb s' = awb s"
      "quoted (origin s') = quoted (origin s)" "quoted (destination s') = quoted (destination s)"
      "pin s' = pin s" "show_int (pieces s') = show_int (pieces s)"
      "toFixed env 3 (actual_weight_kg s') = toFixed env 3 (actual_weight_kg s)"
      "toFixed env 3 (charged_weight_kg s') = toFixed env 3 (charged_weight_kg s)"
      "toFixed env 3 (weight_diff_kg s') = toFixed env 3 (weight_diff_kg s)"
      "toFixed env 2 (weight_diff_percent s') = toFixed env 2 (weight_diff_percent s)"
      "toFixed env 2 (line_amount s') = toFixed env 2 (line_amount s)"
      "toFixed env 2 (per_kg_rate s') = toFixed env 2 (per_kg_rate s)"
      "toFixed env 2 (product_value s') = toFixed env 2 (product_value s)"
      "quoted (service s') = quoted (service s)" "zone s' = zone s"
      "quoted (status s') = quoted (status s)"
      "yes_no (flag_high_uplift s') = yes_no (flag_high_uplift s)"
      "yes_no (flag_roundup_jump s') = yes_no (flag_roundup_jump s)"
      "yes_no (flag_value_weight_mismatch s') = yes_no (flag_value_weight_mismatch s)"
      "yes_no (flag_charge_outlier s') = yes_no (flag_charge_outlier s)"
      "yes_no (flag_missing_actual s') = yes_no (flag_missing_actual s)"
    unfolding r r' by simp_all
  have cols: "exported_columns env s' = exported_columns env s"
    unfolding exported_columns_def
    using eq d d'
    by (simp add: carrier_name_inject quoted_inject show_int_inject yes_no_inject)
  have nums: "agree_to 3 (actual_weight_kg s') (actual_weight_kg s)"
      "agree_to 3 (charged_weight_kg s') (charged_weight_kg s)"
      "agree_to 3 (weight_diff_kg s') (weight_diff_kg s)"
      "agree_to 2 (weight_diff_percent s') (weight_diff_percent s)"
      "agree_to 2 (line_amount s') (line_amount s)"
      "agree_to 2 (per_kg_rate s') (per_kg_rate s)"
      "agree_to 2 (product_value s') (product_value s)"
    using eq(8-14) by (simp_all add: toFixed_agree)
  show ?thesis
    using split cols nums by (intro conjI)
qed

theorem csv_line_determines_exported_columns_witness:
  "csv_fields example_env (normalizeBlueDart example_env [fine_row_a] ! 0)
     = Inr (projr (csv_fields example_env (normalizeBlueDart example_env [fine_row_a] ! 0)))
   \<and> csv_fields example_env (normalizeBlueDart example_env [fine_row_b] ! 0)
     = Inr (projr (csv_fields example_env (normalizeBlueDart example_env [fine_row_b] ! 0)))
   \<and> list_all (\<lambda>f. CHR '','' \<notin> set f)
        (projr (csv_fields example_env (normalizeBlueDart example_env [fine_row_a] ! 0)))
   \<and> list_all (\<lambda>f. CHR '','' \<notin> set f)
        (projr (csv_fields example_env (normalizeBlueDart example_env [fine_row_b] ! 0)))
   \<and> exported_columns example_env (normalizeBlueDart example_env [fine_row_b] ! 0)
       = exported_columns example_env (normalizeBlueDart example_env [fine_row_a] ! 0)"
proof -
  let ?a = "normalizeBlueDart example_env [fine_row_a] ! 0"
  let ?b = "normalizeBlueDart example_env [fine_row_b] ! 0"
  have a: "csv_fields example_env ?a = Inr (projr (csv_fields example_env ?a))" by code_simp
  have b: "csv_fields example_env ?b = Inr (projr (csv_fields example_env ?b))" by code_simp
  have ca: "list_all (\<lambda>f. CHR '','' \<notin> set f) (projr (csv_fields example_env ?a))" by code_simp
  have cb: "list_all (\<lambda>f. CHR '','' \<notin> set f) (projr (csv_fields example_env ?b))" by code_simp
  have j: "js_join '','' (projr (csv_fields example_env ?a))
         = js_join '','' (projr (csv_fields example_env ?b))" by code_simp
  from ca have ca': "\<forall>f\<in>set (projr (csv_fields example_env ?a)). CHR '','' \<notin> set f"
    by (simp only: list_all_iff)
  from cb have cb': "\<forall>f\<in>set (projr (csv_fields example_env ?b)). CHR '','' \<notin> set f"
    by (simp only: list_all_iff)
  note inst = csv_line_determines_exported_columns [OF a b ca' cb' j]
  show ?thesis
    using a b ca cb inst [THEN conjunct2, THEN conjunct1] by (intro conjI)
qed

end
